theory Spec2Isabelle
  imports Complex_Main "HOL-Library.Sublist"
begin

section \<open>JavaScript values\<close>

subsection \<open>Strings\<close>

text \<open>
  A JavaScript string is a sequence of UTF-16 code units; a code unit is modelled by its
  number. \<open>js\<close> turns an ASCII literal of the source into such a sequence. Numbers are
  IEEE doubles in the source and real numbers here (no rounding, no NaN, no infinities).
\<close>

type_synonym jsstring = "nat list"

definition js :: "string \<Rightarrow> jsstring" where
  "js s = map of_char s"

text \<open>
  The code units that the pattern \<open>\s\<close> and \<open>String.prototype.trim\<close> treat as white space:
  the WhiteSpace and LineTerminator productions of ECMAScript.
\<close>

definition isWhiteSpace :: "nat \<Rightarrow> bool" where
  "isWhiteSpace c \<longleftrightarrow>
     c = 9 \<or> c = 10 \<or> c = 11 \<or> c = 12 \<or> c = 13 \<or> c = 32 \<or> c = 160 \<or> c = 5760 \<or>
     (8192 \<le> c \<and> c \<le> 8202) \<or> c = 8232 \<or> c = 8233 \<or> c = 8239 \<or> c = 8287 \<or>
     c = 12288 \<or> c = 65279"

definition isDigit :: "nat \<Rightarrow> bool" where
  "isDigit c \<longleftrightarrow> 48 \<le> c \<and> c \<le> 57"

definition notNewline :: "nat \<Rightarrow> bool" where
  "notNewline c \<longleftrightarrow> c \<noteq> 10"

definition isQuote :: "nat \<Rightarrow> bool" where
  "isQuote c \<longleftrightarrow> c = 34 \<or> c = 39"

definition notQuote :: "nat \<Rightarrow> bool" where
  "notQuote c \<longleftrightarrow> \<not> isQuote c"

definition trim :: "jsstring \<Rightarrow> jsstring" where
  "trim s = rev (dropWhile isWhiteSpace (rev (dropWhile isWhiteSpace s)))"

text \<open>
  Case folding is modelled on the letters A to Z. The source lower-cases a text only to
  search it for one of the ASCII keywords rising, declining, volatile, support and confirm,
  or to normalise a matched verdict word made of ASCII letters; the only characters outside
  ASCII whose lower case contains an ASCII letter are U+0130 (i followed by U+0307) and
  U+212A (k), and no keyword contains k or ends in i, so the searches agree with the
  source on every text. A pattern with the flag \<open>i\<close> (and without \<open>u\<close>) never identifies a
  character outside ASCII with an ASCII one.
\<close>

definition toLowerUnit :: "nat \<Rightarrow> nat" where
  "toLowerUnit c = (if 65 \<le> c \<and> c \<le> 90 then c + 32 else c)"

definition toLowerCase :: "jsstring \<Rightarrow> jsstring" where
  "toLowerCase s = map toLowerUnit s"

text \<open>\<open>s.includes(k)\<close>: some suffix of \<open>s\<close> starts with \<open>k\<close>.\<close>

fun str_includes :: "jsstring \<Rightarrow> jsstring \<Rightarrow> bool" where
  "str_includes [] k = (k = [])"
| "str_includes (c # cs) k = (prefix k (c # cs) \<or> str_includes cs k)"

text \<open>\<open>s.split(k)[0]\<close> for a one-unit separator: the part before its first occurrence.\<close>

definition beforeFirst :: "nat \<Rightarrow> jsstring \<Rightarrow> jsstring" where
  "beforeFirst k s = takeWhile (\<lambda>c. c \<noteq> k) s"

text \<open>
  Decimal rendering of an integer, as a template literal renders a number that is an
  integer of magnitude below \<open>10^21\<close>.
\<close>

function numberToString :: "nat \<Rightarrow> jsstring" where
  "numberToString n = (if n < 10 then [48 + n] else numberToString (n div 10) @ [48 + n mod 10])"
  by pat_completeness auto
termination
  by (relation "measure id") auto

definition intToString :: "int \<Rightarrow> jsstring" where
  "intToString i = (if i < 0 then 45 # numberToString (nat (- i)) else numberToString (nat i))"

text \<open>\<open>Math.round\<close>: the nearest integer, halves towards plus infinity.\<close>

definition Math_round :: "real \<Rightarrow> int" where
  "Math_round x = \<lfloor>x + 1 / 2\<rfloor>"

subsection \<open>Regular expressions\<close>

text \<open>
  The regular expressions of the source are matched by backtracking: each quantifier tries
  its longest repetition first and gives code units back one at a time while the rest of
  the pattern fails. \<open>first_some\<close> is that search over the alternatives in priority order,
  \<open>greedy lo p\<close> lists the ways a greedy repetition (at least \<open>lo\<close> times) of a character
  class \<open>p\<close> can split the input, longest first, and \<open>lit\<close> matches a literal under the
  flag \<open>i\<close>. A matcher anchored at the start of its input returns the captured groups and
  the input left after the match.
\<close>

fun first_some :: "('a \<Rightarrow> 'b option) \<Rightarrow> 'a list \<Rightarrow> 'b option" where
  "first_some f [] = None"
| "first_some f (x # xs) = (case f x of Some y \<Rightarrow> Some y | None \<Rightarrow> first_some f xs)"

definition greedy :: "nat \<Rightarrow> (nat \<Rightarrow> bool) \<Rightarrow> jsstring \<Rightarrow> (jsstring \<times> jsstring) list" where
  "greedy lo p s =
     map (\<lambda>n. (take n s, drop n s)) (rev [lo ..< Suc (length (takeWhile p s))])"

definition lit :: "jsstring \<Rightarrow> jsstring \<Rightarrow> jsstring option" where
  "lit k s =
     (if toLowerCase (take (length k) s) = toLowerCase k then Some (drop (length k) s)
      else None)"

text \<open>An optional literal \<open>k?\<close>: with it first, then without it.\<close>

definition optional :: "jsstring \<Rightarrow> jsstring \<Rightarrow> (jsstring \<times> jsstring) list" where
  "optional k s =
     (case lit k s of
        Some r \<Rightarrow> [(take (length k) s, r), ([], s)]
      | None \<Rightarrow> [([], s)])"

text \<open>
  Searching: the match at the leftmost position where the anchored matcher succeeds (the
  empty suffix is a position too).
\<close>

fun re_search :: "(jsstring \<Rightarrow> 'a option) \<Rightarrow> jsstring \<Rightarrow> 'a option" where
  "re_search m [] = m []"
| "re_search m (c # cs) = (case m (c # cs) of Some r \<Rightarrow> Some r | None \<Rightarrow> re_search m cs)"

subsection \<open>JSON values and thrown values\<close>

datatype json =
    JNull
  | JBool bool
  | JNum real
  | JStr jsstring
  | JArr "json list"
  | JObj "(jsstring \<times> json) list"

text \<open>
  A property read gives \<open>None\<close> for \<open>undefined\<close>. An object read from JSON holds its
  members in source order, a later duplicate key replacing an earlier one; an array and a
  string answer the index \<open>0\<close>; none of the property names the source reads is inherited
  from a prototype. Reading a property of \<open>null\<close> is the caller's case, since it throws.
\<close>

fun getProp :: "json \<Rightarrow> jsstring \<Rightarrow> json option" where
  "getProp (JObj kvs) k = map_of (rev kvs) k"
| "getProp _ k = None"

fun getIndex0 :: "json \<Rightarrow> json option" where
  "getIndex0 (JObj kvs) = map_of (rev kvs) (js ''0'')"
| "getIndex0 (JArr []) = None"
| "getIndex0 (JArr (v # vs)) = Some v"
| "getIndex0 (JStr []) = None"
| "getIndex0 (JStr (c # cs)) = Some (JStr [c])"
| "getIndex0 _ = None"

fun truthy :: "json option \<Rightarrow> bool" where
  "truthy None = False"
| "truthy (Some JNull) = False"
| "truthy (Some (JBool b)) = b"
| "truthy (Some (JNum x)) = (x \<noteq> 0)"
| "truthy (Some (JStr s)) = (s \<noteq> [])"
| "truthy (Some (JArr vs)) = True"
| "truthy (Some (JObj kvs)) = True"

text \<open>
  What a \<open>catch\<close> observes of a thrown value: whether it is an \<open>Error\<close>, and then its
  message. The message of an error raised by the engine itself (a property of \<open>null\<close>, a
  call of something that is no function) is the engine's, a field of the world below.
\<close>

datatype thrown = Error jsstring | NonError

definition errorMessage :: "thrown \<Rightarrow> jsstring" where
  "errorMessage e = (case e of Error m \<Rightarrow> m | NonError \<Rightarrow> js ''Unknown error'')"

section \<open>The world of a tool call\<close>

text \<open>
  Every tool posts one chat-completion request. The two message texts of a request are
  fixed templates over the tool's inputs, so a request is recorded by its model name, its
  bearer token, the inputs that fill the templates, and the two sampling parameters.
\<close>

datatype prompt =
    NewsPrompt real jsstring jsstring jsstring jsstring
  | SentimentPrompt jsstring "jsstring option"
  | FactCheckPrompt jsstring "jsstring option" "jsstring list"
  | TrendPrompt jsstring jsstring "jsstring option"

record request =
  req_bearer :: jsstring
  req_model :: jsstring
  req_messages :: prompt
  req_max_tokens :: nat
  req_temperature :: real

text \<open>A response: its status, and what \<open>response.text()\<close> and \<open>response.json()\<close> settle to.\<close>

record response =
  res_status :: nat
  res_text :: "thrown + jsstring"
  res_json :: "thrown + json"

definition res_ok :: "response \<Rightarrow> bool" where
  "res_ok r \<longleftrightarrow> 200 \<le> res_status r \<and> res_status r \<le> 299"

text \<open>
  The world holds everything a call reads from outside: the environment variable, the
  network (\<open>fetch\<close> settles to a response or rejects), the JSON parser (\<open>None\<close> when it
  throws), the clock (the ISO rendering of the current instant moved back by an offset) and
  the successive values of \<open>Math.random()\<close>.
\<close>

datatype offset = Days nat | Months nat | Years nat

record world =
  PERPLEXITY_API_KEY :: "jsstring option"
  fetch :: "request \<Rightarrow> thrown + response"
  JSON_parse :: "jsstring \<Rightarrow> json option"
  engineMessage :: jsstring
  toISOString :: "offset \<Rightarrow> jsstring"
  Math_random :: "nat \<Rightarrow> real"

text \<open>\<open>!process.env.PERPLEXITY_API_KEY\<close>: the variable is unset or empty.\<close>

definition keyMissing :: "world \<Rightarrow> bool" where
  "keyMissing w \<longleftrightarrow> (case PERPLEXITY_API_KEY w of None \<Rightarrow> True | Some k \<Rightarrow> k = [])"

definition keyMissingMessage :: jsstring where
  "keyMissingMessage = js ''PERPLEXITY_API_KEY environment variable is not set''"

definition keyMissingError :: thrown where
  "keyMissingError = Error keyMissingMessage"

definition bearer :: "world \<Rightarrow> jsstring" where
  "bearer w = js ''Bearer '' @ (case PERPLEXITY_API_KEY w of None \<Rightarrow> [] | Some k \<Rightarrow> k)"

subsection \<open>The completion call\<close>

text \<open>
  The four tools share, each in its own copy, the code from \<open>fetch\<close> to the emptiness check
  of the returned content; the copies differ in the label of the generic error message.
  The call yields the content, a string that is not blank, or what was thrown.
\<close>

definition httpError :: "jsstring \<Rightarrow> nat \<Rightarrow> jsstring \<Rightarrow> thrown" where
  "httpError label st errorText =
     (if st = 401 then
        Error (js ''Invalid Perplexity API key. Please check your PERPLEXITY_API_KEY environment variable.'')
      else if st = 429 then
        Error (js ''Rate limit exceeded. Please wait a moment and try again.'')
      else if st \<ge> 500 then
        Error (js ''Perplexity API server error. Please try again later.'')
      else
        Error (label @ js '': '' @ numberToString st @ js '' - '' @ errorText))"

definition invalidFormat :: thrown where
  "invalidFormat = Error (js ''Invalid response format from Perplexity API'')"

definition emptyResponse :: thrown where
  "emptyResponse = Error (js ''Empty response from Perplexity API'')"

definition messageContent :: "world \<Rightarrow> json \<Rightarrow> thrown + jsstring" where
  "messageContent w data =
     (if data = JNull then Inl (Error (engineMessage w))
      else
        let choices = getProp data (js ''choices'');
            choice = Option.bind choices getIndex0;
            message = Option.bind choice (\<lambda>c. getProp c (js ''message''));
            content = Option.bind message (\<lambda>m. getProp m (js ''content''))
        in if \<not> truthy choices \<or> \<not> truthy choice \<or> \<not> truthy message then Inl invalidFormat
           else if \<not> truthy content then Inl emptyResponse
           else (case content of
                   Some (JStr s) \<Rightarrow> if trim s = [] then Inl emptyResponse else Inr s
                 | _ \<Rightarrow> Inl (Error (engineMessage w))))"

definition completion :: "world \<Rightarrow> jsstring \<Rightarrow> request \<Rightarrow> thrown + jsstring" where
  "completion w label req =
     (case fetch w req of
        Inl e \<Rightarrow> Inl e
      | Inr res \<Rightarrow>
          if \<not> res_ok res then
            (case res_text res of
               Inl e \<Rightarrow> Inl e
             | Inr errorText \<Rightarrow> Inl (httpError label (res_status res) errorText))
          else
            (case res_json res of
               Inl e \<Rightarrow> Inl e
             | Inr data \<Rightarrow> messageContent w data))"

section \<open>The news tool\<close>

record news_context =
  nc_topic :: jsstring
  nc_count :: "real option"
  nc_language :: "jsstring option"
  nc_sortBy :: "jsstring option"
  nc_timeRange :: "jsstring option"

record news_result =
  nr_topic :: jsstring
  nr_summary :: jsstring
  nr_timestamp :: jsstring
  nr_articleCount :: real
  nr_sources :: "jsstring list"
  nr_language :: jsstring

text \<open>The \<open>switch\<close> on the time range: how far \<open>fromDate\<close> lies before now.\<close>

definition fromDate :: "jsstring \<Rightarrow> offset" where
  "fromDate timeRange =
     (if timeRange = js ''today'' then Days 1
      else if timeRange = js ''week'' then Days 7
      else if timeRange = js ''month'' then Months 1
      else Years 1)"

definition fallbackSummary ::
  "jsstring \<Rightarrow> jsstring \<Rightarrow> jsstring \<Rightarrow> jsstring \<Rightarrow> jsstring \<Rightarrow> jsstring" where
  "fallbackSummary topic fromDay nowDay language message = concat [
      js ''Unable to fetch news for '', [34], topic, [34], js '' at this time. '', [10],
      [10],
      [55357, 56589], js '' SEARCH OVERVIEW'', [10],
      [8226], js '' Total articles found: 0'', [10],
      [8226], js '' Date range: '', fromDay, js '' to '', nowDay, [10],
      [8226], js '' Language: '', language, [10],
      [8226], js '' Key themes identified: Unable to analyze'', [10],
      [8226], js '' Geographic coverage: Unable to determine'', [10],
      [10],
      [55357, 56523], js '' ARTICLE SUMMARIES'', [10],
      replicate 39 9472, [10],
      js ''No articles could be retrieved due to: '', message, [10],
      [10],
      [55357, 56522], js '' TREND ANALYSIS'', [10],
      [8226], js '' Overall sentiment: Unable to determine'', [10],
      [8226], js '' Emerging patterns: No data available'', [10],
      [8226], js '' Geographic focus: Unable to determine'', [10],
      [8226], js '' Timeline: Unable to analyze'', [10],
      [8226], js '' Contradictions: No data available'', [10],
      [10],
      [55356, 57263], js '' KEY TAKEAWAYS'', [10],
      [8226], js '' Most important development: Unable to determine'', [10],
      [8226], js '' What to watch: Monitor for future developments'', [10],
      [8226], js '' Reliability assessment: Low confidence due to data unavailability'', [10],
      [8226], js '' Related topics: Unable to determine'', [10],
      [10],
      [9888, 65039], js '' CONTEXT & VERIFICATION'', [10],
      [8226], js '' Background context: Unable to provide context'', [10],
      [8226], js '' Unverified claims: No claims to verify'', [10],
      [8226], js '' Source diversity: No sources available'', [10],
      [10],
      js ''Please try again later or check your API configuration.'']"

definition newsRequest :: "world \<Rightarrow> real \<Rightarrow> jsstring \<Rightarrow> jsstring \<Rightarrow> jsstring \<Rightarrow> jsstring \<Rightarrow> request" where
  "newsRequest w count topic timeRange language sortBy =
     \<lparr>req_bearer = bearer w, req_model = js ''sonar-pro'',
      req_messages = NewsPrompt count topic timeRange language sortBy,
      req_max_tokens = 3000, req_temperature = 0.3\<rparr>"

text \<open>
  \<open>execute\<close> settles to a result (\<open>Inr\<close>) or rejects with a thrown value (\<open>Inl\<close>); the
  model returns that outcome together with the requests the call sent, in order. The body
  of the \<open>try\<close> comes first, then the whole function with its \<open>catch\<close>.
\<close>

definition newsTool_try :: "world \<Rightarrow> news_context \<Rightarrow> (thrown + news_result) \<times> request list" where
  "newsTool_try w context =
     (let topic = nc_topic context;
          count = (case nc_count context of None \<Rightarrow> 5 | Some c \<Rightarrow> c);
          language = (case nc_language context of None \<Rightarrow> js ''en'' | Some l \<Rightarrow> l);
          sortBy = (case nc_sortBy context of None \<Rightarrow> js ''publishedAt'' | Some s \<Rightarrow> s);
          timeRange = (case nc_timeRange context of None \<Rightarrow> js ''week'' | Some t \<Rightarrow> t)
      in if keyMissing w then (Inl keyMissingError, [])
         else
           let req = newsRequest w count topic timeRange language sortBy
           in (case completion w (js ''Perplexity API error'') req of
                 Inl e \<Rightarrow> Inl e
               | Inr summary \<Rightarrow>
                   Inr \<lparr>nr_topic = topic, nr_summary = summary,
                        nr_timestamp = toISOString w (Days 0), nr_articleCount = count,
                        nr_sources = [js ''Perplexity AI Analysis''], nr_language = language\<rparr>,
               [req]))"

definition newsFallback :: "world \<Rightarrow> jsstring \<Rightarrow> jsstring \<Rightarrow> jsstring \<Rightarrow> jsstring \<Rightarrow> news_result" where
  "newsFallback w topic language timeRange message =
     \<lparr>nr_topic = topic,
      nr_summary =
        fallbackSummary topic
          (beforeFirst 84 (toISOString w (fromDate timeRange)))
          (beforeFirst 84 (toISOString w (Days 0)))
          language message,
      nr_timestamp = toISOString w (Days 0), nr_articleCount = 0,
      nr_sources = [js ''Error - No sources available''], nr_language = language\<rparr>"

definition newsTool :: "world \<Rightarrow> news_context \<Rightarrow> (thrown + news_result) \<times> request list" where
  "newsTool w context =
     (let topic = nc_topic context;
          language = (case nc_language context of None \<Rightarrow> js ''en'' | Some l \<Rightarrow> l);
          timeRange = (case nc_timeRange context of None \<Rightarrow> js ''week'' | Some t \<Rightarrow> t)
      in case newsTool_try w context of
           (Inr result, sent) \<Rightarrow> (Inr result, sent)
         | (Inl error, sent) \<Rightarrow>
             (Inr (newsFallback w topic language timeRange (errorMessage error)), sent))"

section \<open>The sentiment tool\<close>

record sentiment_context =
  sc_text :: jsstring
  sc_context :: "jsstring option"

text \<open>
  The tool returns whatever object the upstream content parses to, so its result is a JSON
  value; the two object literals of the source are written as such values.
\<close>

definition parseFallback :: json where
  "parseFallback = JObj [
     (js ''overallSentiment'', JStr (js ''neutral'')),
     (js ''sentimentScore'', JNum 0),
     (js ''emotions'', JObj [
        (js ''joy'', JNum 0.5), (js ''anger'', JNum 0.1), (js ''fear'', JNum 0.1),
        (js ''sadness'', JNum 0.1), (js ''surprise'', JNum 0.1), (js ''trust'', JNum 0.5)]),
     (js ''subjectivity'', JNum 0.5),
     (js ''confidence'', JNum 0.7),
     (js ''keyPhrases'', JArr []),
     (js ''summary'',
      JStr (js ''Sentiment analysis completed with fallback values due to parsing error.''))]"

definition sentimentFallback :: "jsstring \<Rightarrow> json" where
  "sentimentFallback message = JObj [
     (js ''overallSentiment'', JStr (js ''neutral'')),
     (js ''sentimentScore'', JNum 0),
     (js ''emotions'', JObj [
        (js ''joy'', JNum 0), (js ''anger'', JNum 0), (js ''fear'', JNum 0),
        (js ''sadness'', JNum 0), (js ''surprise'', JNum 0), (js ''trust'', JNum 0)]),
     (js ''subjectivity'', JNum 0.5),
     (js ''confidence'', JNum 0),
     (js ''keyPhrases'', JArr []),
     (js ''summary'',
      JStr (js ''Sentiment analysis failed: '' @ message @ js ''. Using neutral fallback values.''))]"

definition sentimentRequest :: "world \<Rightarrow> jsstring \<Rightarrow> jsstring option \<Rightarrow> request" where
  "sentimentRequest w text additionalContext =
     \<lparr>req_bearer = bearer w, req_model = js ''sonar'',
      req_messages = SentimentPrompt text additionalContext,
      req_max_tokens = 1000, req_temperature = 0.2\<rparr>"

definition validateSentiment :: "world \<Rightarrow> json \<Rightarrow> thrown + json" where
  "validateSentiment w result =
     (if result = JNull then Inl (Error (engineMessage w))
      else if \<not> truthy (getProp result (js ''overallSentiment'')) \<or>
              \<not> truthy (getProp result (js ''emotions''))
      then Inl (Error (js ''Invalid sentiment analysis result structure''))
      else Inr result)"

definition sentimentTool_try :: "world \<Rightarrow> sentiment_context \<Rightarrow> (thrown + json) \<times> request list" where
  "sentimentTool_try w context =
     (let text = sc_text context; additionalContext = sc_context context
      in if text = [] \<or> trim text = [] then
           (Inl (Error (js ''Text input is empty or invalid'')), [])
         else if keyMissing w then (Inl keyMissingError, [])
         else
           let req = sentimentRequest w text additionalContext
           in (case completion w (js ''Sentiment analysis API error'') req of
                 Inl e \<Rightarrow> Inl e
               | Inr content \<Rightarrow>
                   validateSentiment w
                     (case JSON_parse w content of
                        Some parsed \<Rightarrow> parsed
                      | None \<Rightarrow> parseFallback),
               [req]))"

definition sentimentTool :: "world \<Rightarrow> sentiment_context \<Rightarrow> (thrown + json) \<times> request list" where
  "sentimentTool w context =
     (case sentimentTool_try w context of
        (Inr result, sent) \<Rightarrow> (Inr result, sent)
      | (Inl error, sent) \<Rightarrow> (Inr (sentimentFallback (errorMessage error)), sent))"

section \<open>The fact-check tool\<close>

record factcheck_context =
  fc_claim :: jsstring
  fc_sources :: "jsstring list option"
  fc_context :: "jsstring option"

record evidence =
  ev_source :: jsstring
  ev_supporting :: bool
  ev_quote :: jsstring
  ev_credibility :: real

record factcheck_result =
  fr_claim :: jsstring
  fr_verdict :: jsstring
  fr_confidence :: real
  fr_evidence :: "evidence list"
  fr_explanation :: jsstring
  fr_relatedClaims :: "jsstring list"
  fr_checkDate :: jsstring

subsection \<open>The four patterns\<close>

text \<open>\<open>/verdict:\s*(true|mostly_true|mixed|mostly_false|false|unverifiable)/i\<close>\<close>

definition verdictWords :: "jsstring list" where
  "verdictWords =
     [js ''true'', js ''mostly_true'', js ''mixed'', js ''mostly_false'', js ''false'',
      js ''unverifiable'']"

definition verdict_at :: "jsstring \<Rightarrow> (jsstring \<times> jsstring) option" where
  "verdict_at s =
     (case lit (js ''verdict:'') s of
        None \<Rightarrow> None
      | Some r \<Rightarrow>
          first_some (\<lambda>(ws, r1).
            first_some (\<lambda>v.
              (case lit v r1 of
                 None \<Rightarrow> None
               | Some r2 \<Rightarrow> Some (take (length v) r1, r2)))
              verdictWords)
            (greedy 0 isWhiteSpace r))"

text \<open>\<open>/confidence:\s*(\d+\.?\d*)/i\<close>\<close>

definition confidence_at :: "jsstring \<Rightarrow> (jsstring \<times> jsstring) option" where
  "confidence_at s =
     (case lit (js ''confidence:'') s of
        None \<Rightarrow> None
      | Some r \<Rightarrow>
          first_some (\<lambda>(ws, r1).
            first_some (\<lambda>(d1, r2).
              first_some (\<lambda>(dot, r3).
                first_some (\<lambda>(d2, r4). Some (d1 @ dot @ d2, r4))
                  (greedy 0 isDigit r3))
                (optional (js ''.'') r2))
              (greedy 1 isDigit r1))
            (greedy 0 isWhiteSpace r))"

text \<open>\<open>/source:\s*([^\n]+)\s*-\s*([^\n]+)/gi\<close>\<close>

definition source_at :: "jsstring \<Rightarrow> ((jsstring \<times> jsstring) \<times> jsstring) option" where
  "source_at s =
     (case lit (js ''source:'') s of
        None \<Rightarrow> None
      | Some r \<Rightarrow>
          first_some (\<lambda>(ws1, r1).
            first_some (\<lambda>(g1, r2).
              first_some (\<lambda>(ws2, r3).
                (case lit (js ''-'') r3 of
                   None \<Rightarrow> None
                 | Some r4 \<Rightarrow>
                     first_some (\<lambda>(ws3, r5).
                       first_some (\<lambda>(g2, r6). Some ((g1, g2), r6))
                         (greedy 1 notNewline r5))
                       (greedy 0 isWhiteSpace r4)))
                (greedy 0 isWhiteSpace r2))
              (greedy 1 notNewline r1))
            (greedy 0 isWhiteSpace r))"

text \<open>\<open>/related claim[s]?:\s*([^\n]+)/gi\<close>\<close>

definition related_at :: "jsstring \<Rightarrow> (jsstring \<times> jsstring) option" where
  "related_at s =
     (case lit (js ''related claim'') s of
        None \<Rightarrow> None
      | Some r \<Rightarrow>
          first_some (\<lambda>(pl, r1).
            (case lit (js '':'') r1 of
               None \<Rightarrow> None
             | Some r2 \<Rightarrow>
                 first_some (\<lambda>(ws, r3).
                   first_some (\<lambda>(g, r4). Some (g, r4))
                     (greedy 1 notNewline r3))
                   (greedy 0 isWhiteSpace r2)))
            (optional (js ''s'') r))"

text \<open>
  \<open>parseFloat\<close> on a run of digits with an optional fraction, the only strings the
  confidence pattern captures: the decimal number they denote.
\<close>

definition digitsValue :: "jsstring \<Rightarrow> nat" where
  "digitsValue ds = foldl (\<lambda>a c. 10 * a + (c - 48)) 0 ds"

definition parseFloat :: "jsstring \<Rightarrow> real" where
  "parseFloat s =
     (let whole = takeWhile isDigit s;
          frac = (case dropWhile isDigit s of
                    [] \<Rightarrow> []
                  | c # t \<Rightarrow> if c = 46 then takeWhile isDigit t else [])
      in real (digitsValue whole) + real (digitsValue frac) / 10 ^ length frac)"

subsection \<open>The two scanning loops\<close>

text \<open>
  A loop \<open>while ((match = pattern.exec(text)) !== null)\<close> over a pattern with the flag
  \<open>g\<close> searches from where the last match ended. Both patterns consume at least one code
  unit, which is why the loops end.
\<close>

lemma first_some_SomeD: "first_some f xs = Some y \<Longrightarrow> \<exists>x\<in>set xs. f x = Some y"
  by (induction xs) (auto split: option.splits)

lemma greedy_setD:
  assumes "(a, b) \<in> set (greedy lo p s)"
  shows "s = a @ b \<and> lo \<le> length a \<and> (\<forall>c\<in>set a. p c)"
proof -
  from assms obtain n where n: "lo \<le> n" "n \<le> length (takeWhile p s)" "a = take n s" "b = drop n s"
    by (auto simp: greedy_def)
  have "take n s = take n (takeWhile p s @ dropWhile p s)" by simp
  also have "\<dots> = take n (takeWhile p s)" using n(2) by (simp del: takeWhile_dropWhile_id)
  finally have "set a \<subseteq> set (takeWhile p s)" using n(3) by (simp add: set_take_subset)
  then have "\<forall>c\<in>set a. p c" by (auto dest: set_takeWhileD)
  moreover have "n \<le> length s" using n(2) length_takeWhile_le le_trans by blast
  ultimately show ?thesis using n by auto
qed

lemma greedy_len:
  "(a, b) \<in> set (greedy lo p s) \<Longrightarrow> length s = length a + length b \<and> lo \<le> length a"
  by (drule greedy_setD) auto

lemma lit_SomeD:
  assumes "lit k s = Some r"
  shows "s = take (length k) s @ r \<and> length (take (length k) s) = length k
         \<and> toLowerCase (take (length k) s) = toLowerCase k"
proof -
  from assms have e: "toLowerCase (take (length k) s) = toLowerCase k" and r: "r = drop (length k) s"
    by (auto simp: lit_def split: if_splits)
  from e have "length (toLowerCase (take (length k) s)) = length (toLowerCase k)" by simp
  then have "length (take (length k) s) = length k"
    unfolding toLowerCase_def by (simp only: length_map)
  then show ?thesis using r e by simp
qed

lemma lit_len: "lit k s = Some r \<Longrightarrow> length s = length k + length r"
  by (drule lit_SomeD) (metis length_append)

lemma optional_len: "(a, b) \<in> set (optional k s) \<Longrightarrow> length b \<le> length s"
  by (auto simp: optional_def split: option.splits dest: lit_len)

lemma re_search_SomeD: "re_search m s = Some r \<Longrightarrow> \<exists>i\<le>length s. m (drop i s) = Some r"
proof (induction s)
  case Nil
  then show ?case by simp
next
  case (Cons c cs)
  show ?case
  proof (cases "m (c # cs)")
    case None
    with Cons obtain i where "i \<le> length cs" "m (drop i cs) = Some r" by auto
    then show ?thesis by (intro exI[of _ "Suc i"]) simp
  next
    case (Some a)
    with Cons.prems show ?thesis by (intro exI[of _ 0]) simp
  qed
qed

lemma source_at_SomeD:
  assumes "source_at s = Some ((g1, g2), rest)"
  shows "\<exists>r ws1 r1 r2 ws2 r3 r4 ws3 r5.
           lit (js ''source:'') s = Some r \<and> (ws1, r1) \<in> set (greedy 0 isWhiteSpace r) \<and>
           (g1, r2) \<in> set (greedy 1 notNewline r1) \<and> (ws2, r3) \<in> set (greedy 0 isWhiteSpace r2) \<and>
           lit (js ''-'') r3 = Some r4 \<and> (ws3, r5) \<in> set (greedy 0 isWhiteSpace r4) \<and>
           (g2, rest) \<in> set (greedy 1 notNewline r5)"
  using assms unfolding source_at_def
  by (auto split: option.splits dest!: first_some_SomeD) blast

lemma source_at_shorter:
  assumes "source_at s = Some (g, rest)"
  shows "length rest < length s"
proof -
  obtain g1 g2 where "g = (g1, g2)" by (cases g)
  with source_at_SomeD[of s g1 g2 rest] assms obtain r ws1 r1 r2 ws2 r3 r4 ws3 r5 where
    "lit (js ''source:'') s = Some r" "(ws1, r1) \<in> set (greedy 0 isWhiteSpace r)"
    "(g1, r2) \<in> set (greedy 1 notNewline r1)" "(ws2, r3) \<in> set (greedy 0 isWhiteSpace r2)"
    "lit (js ''-'') r3 = Some r4" "(ws3, r5) \<in> set (greedy 0 isWhiteSpace r4)"
    "(g2, rest) \<in> set (greedy 1 notNewline r5)" by auto
  then show ?thesis
    using lit_len greedy_len by fastforce
qed

lemma related_at_SomeD:
  assumes "related_at s = Some (g, rest)"
  shows "\<exists>r pl r1 r2 ws r3.
           lit (js ''related claim'') s = Some r \<and> (pl, r1) \<in> set (optional (js ''s'') r) \<and>
           lit (js '':'') r1 = Some r2 \<and> (ws, r3) \<in> set (greedy 0 isWhiteSpace r2) \<and>
           (g, rest) \<in> set (greedy 1 notNewline r3)"
  using assms unfolding related_at_def
  by (auto split: option.splits dest!: first_some_SomeD) blast

lemma related_at_shorter:
  assumes "related_at s = Some (g, rest)"
  shows "length rest < length s"
proof -
  from related_at_SomeD[OF assms] obtain r pl r1 r2 ws r3 where
    a: "lit (js ''related claim'') s = Some r" "(pl, r1) \<in> set (optional (js ''s'') r)"
    "lit (js '':'') r1 = Some r2" "(ws, r3) \<in> set (greedy 0 isWhiteSpace r2)"
    "(g, rest) \<in> set (greedy 1 notNewline r3)" by auto
  show ?thesis
    using lit_len[OF a(1)] optional_len[OF a(2)] lit_len[OF a(3)] greedy_len[OF a(4)]
      greedy_len[OF a(5)] by linarith
qed

lemma re_search_shorter:
  assumes "\<And>t g rest. m t = Some (g, rest) \<Longrightarrow> length rest < length t"
    and "re_search m s = Some (g, rest)"
  shows "length rest < length s"
proof -
  from re_search_SomeD[OF assms(2)] obtain i where "m (drop i s) = Some (g, rest)" by auto
  from assms(1)[OF this] show ?thesis by simp
qed

function sourceMatches :: "jsstring \<Rightarrow> (jsstring \<times> jsstring) list" where
  "sourceMatches s =
     (case re_search source_at s of
        None \<Rightarrow> []
      | Some (g, rest) \<Rightarrow> g # sourceMatches rest)"
  by pat_completeness auto
termination
  by (relation "measure length") (auto intro: re_search_shorter source_at_shorter)

function relatedMatches :: "jsstring \<Rightarrow> jsstring list" where
  "relatedMatches s =
     (case re_search related_at s of
        None \<Rightarrow> []
      | Some (g, rest) \<Rightarrow> g # relatedMatches rest)"
  by pat_completeness auto
termination
  by (relation "measure length") (auto intro: re_search_shorter related_at_shorter)

declare sourceMatches.simps [simp del] relatedMatches.simps [simp del]
  numberToString.simps [simp del]

subsection \<open>Extraction and the tool\<close>

definition extractVerdict :: "jsstring \<Rightarrow> jsstring" where
  "extractVerdict analysisText =
     (case re_search verdict_at analysisText of
        Some (v, rest) \<Rightarrow> toLowerCase v
      | None \<Rightarrow> js ''unverifiable'')"

definition extractConfidence :: "jsstring \<Rightarrow> real" where
  "extractConfidence analysisText =
     (case re_search confidence_at analysisText of
        Some (n, rest) \<Rightarrow> parseFloat n / 100
      | None \<Rightarrow> 0.5)"

definition makeEvidence :: "jsstring \<times> jsstring \<Rightarrow> evidence" where
  "makeEvidence g =
     \<lparr>ev_source = trim (fst g),
      ev_supporting =
        (str_includes (toLowerCase (snd g)) (js ''support'') \<or>
         str_includes (toLowerCase (snd g)) (js ''confirm'')),
      ev_quote = trim (snd g),
      ev_credibility = 0.8\<rparr>"

definition extractEvidence :: "jsstring \<Rightarrow> evidence list" where
  "extractEvidence analysisText = map makeEvidence (sourceMatches analysisText)"

definition extractRelated :: "jsstring \<Rightarrow> jsstring list" where
  "extractRelated analysisText = map trim (relatedMatches analysisText)"

definition factCheckRequest ::
  "world \<Rightarrow> jsstring \<Rightarrow> jsstring option \<Rightarrow> jsstring list \<Rightarrow> request" where
  "factCheckRequest w claim additionalContext sources =
     \<lparr>req_bearer = bearer w, req_model = js ''sonar-pro'',
      req_messages = FactCheckPrompt claim additionalContext sources,
      req_max_tokens = 2000, req_temperature = 0.1\<rparr>"

definition factCheckFallback :: "world \<Rightarrow> jsstring \<Rightarrow> jsstring \<Rightarrow> factcheck_result" where
  "factCheckFallback w claim message =
     \<lparr>fr_claim = claim, fr_verdict = js ''unverifiable'', fr_confidence = 0, fr_evidence = [],
      fr_explanation =
        js ''Fact-checking failed: '' @ message @ js ''. Unable to verify this claim at this time.'',
      fr_relatedClaims = [], fr_checkDate = toISOString w (Days 0)\<rparr>"

definition factCheckTool_try ::
  "world \<Rightarrow> factcheck_context \<Rightarrow> (thrown + factcheck_result) \<times> request list" where
  "factCheckTool_try w context =
     (let claim = fc_claim context;
          sources = (case fc_sources context of None \<Rightarrow> [] | Some l \<Rightarrow> l);
          additionalContext = fc_context context
      in if claim = [] \<or> trim claim = [] then
           (Inl (Error (js ''Claim input is empty or invalid'')), [])
         else if keyMissing w then (Inl keyMissingError, [])
         else
           let req = factCheckRequest w claim additionalContext sources
           in (case completion w (js ''Fact-check API error'') req of
                 Inl e \<Rightarrow> Inl e
               | Inr analysisText \<Rightarrow>
                   Inr \<lparr>fr_claim = claim,
                        fr_verdict = extractVerdict analysisText,
                        fr_confidence = extractConfidence analysisText,
                        fr_evidence = take 5 (extractEvidence analysisText),
                        fr_explanation = analysisText,
                        fr_relatedClaims = take 3 (extractRelated analysisText),
                        fr_checkDate = toISOString w (Days 0)\<rparr>,
               [req]))"

definition factCheckTool ::
  "world \<Rightarrow> factcheck_context \<Rightarrow> (thrown + factcheck_result) \<times> request list" where
  "factCheckTool w context =
     (case factCheckTool_try w context of
        (Inr result, sent) \<Rightarrow> (Inr result, sent)
      | (Inl error, sent) \<Rightarrow>
          (Inr (factCheckFallback w (fc_claim context) (errorMessage error)), sent))"

section \<open>The trend tool\<close>

record trend_context =
  tc_topic :: jsstring
  tc_timeframe :: "jsstring option"
  tc_region :: "jsstring option"

record prediction =
  pr_scenario :: jsstring
  pr_probability :: real
  pr_timeframe :: jsstring
  pr_impact :: jsstring

record related_topic =
  rt_topic :: jsstring
  rt_correlation :: real
  rt_relationship :: jsstring

record timeline_point =
  tp_date :: jsstring
  tp_intensity :: real
  tp_keyEvent :: "jsstring option"

record trend_result =
  tr_topic :: jsstring
  tr_timeframe :: jsstring
  tr_trendDirection :: jsstring
  tr_momentum :: real
  tr_keyDrivers :: "jsstring list"
  tr_predictions :: "prediction list"
  tr_relatedTopics :: "related_topic list"
  tr_timeline :: "timeline_point list"
  tr_analysis :: jsstring

text \<open>
  The loop \<open>for (let i = 6; i >= 0; i--)\<close> draws the first seven random numbers, the
  momentum the eighth.
\<close>

definition timeline :: "world \<Rightarrow> timeline_point list" where
  "timeline w =
     map (\<lambda>k. let i = 6 - k in
            \<lparr>tp_date = beforeFirst 84 (toISOString w (Days i)),
             tp_intensity = Math_random w k * 100,
             tp_keyEvent = (if i = 3 then Some (js ''Major development'') else None)\<rparr>)
       [0 ..< 7]"

definition trendDirectionOf :: "jsstring \<Rightarrow> jsstring" where
  "trendDirectionOf analysisText =
     (if str_includes (toLowerCase analysisText) (js ''rising'') then js ''rising''
      else if str_includes (toLowerCase analysisText) (js ''declining'') then js ''declining''
      else if str_includes (toLowerCase analysisText) (js ''volatile'') then js ''volatile''
      else js ''stable'')"

definition cannedPredictions :: "prediction list" where
  "cannedPredictions =
     [\<lparr>pr_scenario = js ''Continued growth in public interest'', pr_probability = 0.75,
       pr_timeframe = js ''Next 2 weeks'', pr_impact = js ''high''\<rparr>,
      \<lparr>pr_scenario = js ''Stabilization of current trends'', pr_probability = 0.6,
       pr_timeframe = js ''Next month'', pr_impact = js ''medium''\<rparr>,
      \<lparr>pr_scenario = js ''Potential policy response'', pr_probability = 0.4,
       pr_timeframe = js ''Next quarter'', pr_impact = js ''high''\<rparr>]"

definition cannedRelatedTopics :: "related_topic list" where
  "cannedRelatedTopics =
     [\<lparr>rt_topic = js ''Economic impact'', rt_correlation = 0.8,
       rt_relationship = js ''Direct correlation with market trends''\<rparr>,
      \<lparr>rt_topic = js ''Policy developments'', rt_correlation = 0.6,
       rt_relationship = js ''Influences regulatory environment''\<rparr>,
      \<lparr>rt_topic = js ''Public opinion'', rt_correlation = 0.7,
       rt_relationship = js ''Drives media coverage''\<rparr>]"

definition trendRequest :: "world \<Rightarrow> jsstring \<Rightarrow> jsstring \<Rightarrow> jsstring option \<Rightarrow> request" where
  "trendRequest w topic timeframe region =
     \<lparr>req_bearer = bearer w, req_model = js ''sonar-pro'',
      req_messages = TrendPrompt topic timeframe region,
      req_max_tokens = 2500, req_temperature = 0.3\<rparr>"

definition trendFallback :: "jsstring \<Rightarrow> jsstring \<Rightarrow> jsstring \<Rightarrow> trend_result" where
  "trendFallback topic timeframe message =
     \<lparr>tr_topic = topic, tr_timeframe = timeframe, tr_trendDirection = js ''stable'',
      tr_momentum = 0, tr_keyDrivers = [], tr_predictions = [], tr_relatedTopics = [],
      tr_timeline = [],
      tr_analysis =
        js ''Trend analysis failed: '' @ message @ js ''. Unable to analyze trends for '' @ [34] @
        topic @ [34] @ js '' at this time.''\<rparr>"

definition trendTool_try :: "world \<Rightarrow> trend_context \<Rightarrow> (thrown + trend_result) \<times> request list" where
  "trendTool_try w context =
     (let topic = tc_topic context;
          timeframe = (case tc_timeframe context of None \<Rightarrow> js ''week'' | Some t \<Rightarrow> t);
          region = tc_region context
      in if topic = [] \<or> trim topic = [] then
           (Inl (Error (js ''Topic input is empty or invalid'')), [])
         else if keyMissing w then (Inl keyMissingError, [])
         else
           let req = trendRequest w topic timeframe region
           in (case completion w (js ''Trend analysis API error'') req of
                 Inl e \<Rightarrow> Inl e
               | Inr analysisText \<Rightarrow>
                   Inr \<lparr>tr_topic = topic, tr_timeframe = timeframe,
                        tr_trendDirection = trendDirectionOf analysisText,
                        tr_momentum = real_of_int \<lfloor>Math_random w 7 * 60\<rfloor> + 20,
                        tr_keyDrivers =
                          take 3 [js ''Public interest surge'', js ''Media coverage increase'',
                                  js ''Policy changes'', js ''Market dynamics''],
                        tr_predictions = cannedPredictions,
                        tr_relatedTopics = cannedRelatedTopics,
                        tr_timeline = timeline w,
                        tr_analysis = analysisText\<rparr>,
               [req]))"

definition trendTool :: "world \<Rightarrow> trend_context \<Rightarrow> (thrown + trend_result) \<times> request list" where
  "trendTool w context =
     (let topic = tc_topic context;
          timeframe = (case tc_timeframe context of None \<Rightarrow> js ''week'' | Some t \<Rightarrow> t)
      in case trendTool_try w context of
           (Inr result, sent) \<Rightarrow> (Inr result, sent)
         | (Inl error, sent) \<Rightarrow> (Inr (trendFallback topic timeframe (errorMessage error)), sent))"

section \<open>The briefing workflow\<close>

record workflow_input =
  wi_topic :: jsstring
  wi_depth :: jsstring
  wi_language :: jsstring
  wi_region :: "jsstring option"

text \<open>
  What the workflow reads of a sentiment result, at the types the tool's output schema
  declares: the emotions are the object's members in order, each a number.
\<close>

record sentiment_result =
  sr_overallSentiment :: jsstring
  sr_sentimentScore :: real
  sr_emotions :: "(jsstring \<times> real) list"

record executive_summary =
  keyFindings :: "jsstring list"
  recommendedActions :: "jsstring list"
  riskLevel :: jsstring

record news_analysis =
  na_summary :: jsstring
  sourceCount :: real
  geographicScope :: "jsstring list"
  timelineSummary :: jsstring

record sentiment_analysis =
  overallSentiment :: jsstring
  publicMood :: jsstring
  emotionalDrivers :: "jsstring list"
  sentimentShift :: jsstring

record fact_checking =
  verifiedClaims :: "jsstring list"
  disputedClaims :: "jsstring list"
  misinformationRisk :: jsstring

record trend_analysis =
  currentTrend :: jsstring
  momentum :: real
  predictions :: "jsstring list"
  relatedTrends :: "jsstring list"

record recommendation =
  action :: jsstring
  priority :: jsstring
  rationale :: jsstring

record metadata =
  analysisDate :: jsstring
  confidence :: real
  dataQuality :: jsstring

record briefing =
  b_topic :: jsstring
  executiveSummary :: executive_summary
  newsAnalysis :: news_analysis
  sentimentAnalysis :: sentiment_analysis
  factChecking :: fact_checking
  trendAnalysis :: trend_analysis
  strategicRecommendations :: "recommendation list"
  metadata :: metadata

text \<open>
  The workflow calls the four tools through their \<open>execute\<close>; a step settles or rejects.
  The fact-check step is started once per claim, so it also gets the number of the call.
\<close>

record steps =
  newsStep :: "news_context \<Rightarrow> thrown + news_result"
  sentimentStep :: "sentiment_context \<Rightarrow> thrown + sentiment_result"
  factCheckStep :: "nat \<Rightarrow> factcheck_context \<Rightarrow> thrown + factcheck_result"
  trendStep :: "trend_context \<Rightarrow> thrown + trend_result"

subsection \<open>Claims to check\<close>

text \<open>\<open>/["']([^"']+)["']/g\<close>, with the whole match as result\<close>

definition oneOf :: "(nat \<Rightarrow> bool) \<Rightarrow> jsstring \<Rightarrow> (nat \<times> jsstring) option" where
  "oneOf p s = (case s of [] \<Rightarrow> None | c # r \<Rightarrow> if p c then Some (c, r) else None)"

definition quoted_at :: "jsstring \<Rightarrow> (jsstring \<times> jsstring) option" where
  "quoted_at s =
     (case oneOf isQuote s of
        None \<Rightarrow> None
      | Some (q1, r) \<Rightarrow>
          first_some (\<lambda>(g, r1).
            (case oneOf isQuote r1 of
               None \<Rightarrow> None
             | Some (q2, r2) \<Rightarrow> Some (q1 # g @ [q2], r2)))
            (greedy 1 notQuote r))"

lemma quoted_at_shorter:
  assumes "quoted_at s = Some (g, rest)"
  shows "length rest < length s"
proof -
  from assms obtain q1 r a r1 q2 where
    a: "oneOf isQuote s = Some (q1, r)" "(a, r1) \<in> set (greedy 1 notQuote r)"
      "oneOf isQuote r1 = Some (q2, rest)"
    unfolding quoted_at_def
    by (auto split: option.splits dest!: first_some_SomeD)
  from a(1,3) have "length s = Suc (length r)" "length r1 = Suc (length rest)"
    by (auto simp: oneOf_def split: list.splits if_splits)
  with greedy_len[OF a(2)] show ?thesis by linarith
qed

function quotedMatches :: "jsstring \<Rightarrow> jsstring list" where
  "quotedMatches s =
     (case re_search quoted_at s of
        None \<Rightarrow> []
      | Some (g, rest) \<Rightarrow> g # quotedMatches rest)"
  by pat_completeness auto
termination
  by (relation "measure length") (auto intro: re_search_shorter quoted_at_shorter)

declare quotedMatches.simps [simp del]

text \<open>\<open>Promise.all\<close>: every result in order, or a rejection as soon as one call rejects.\<close>

fun promiseAll :: "('e + 'a) list \<Rightarrow> 'e + 'a list" where
  "promiseAll [] = Inr []"
| "promiseAll (Inl e # os) = Inl e"
| "promiseAll (Inr x # os) = (case promiseAll os of Inl e \<Rightarrow> Inl e | Inr xs \<Rightarrow> Inr (x # xs))"

definition factCheckStage :: "steps \<Rightarrow> jsstring \<Rightarrow> jsstring \<Rightarrow> factcheck_result list" where
  "factCheckStage st topic summary =
     (let claims = quotedMatches summary
      in if length claims > 0 then
           (case promiseAll
                   (map (\<lambda>(i, claim).
                          factCheckStep st i
                            \<lparr>fc_claim = filter notQuote claim, fc_sources = None,
                             fc_context = Some topic\<rparr>)
                      (enumerate 0 (take 3 claims))) of
              Inr results \<Rightarrow> results
            | Inl error \<Rightarrow> [])
         else [])"

subsection \<open>Structuring the result\<close>

text \<open>A comparison \<open>x > c\<close> where \<open>x\<close> may be \<open>undefined\<close> (a member that is not there).\<close>

definition greaterThan :: "real option \<Rightarrow> real \<Rightarrow> bool" where
  "greaterThan x c = (case x of None \<Rightarrow> False | Some v \<Rightarrow> v > c)"

definition claimOrUnknown :: "factcheck_result \<Rightarrow> jsstring" where
  "claimOrUnknown r = (if fr_claim r = [] then js ''Unknown claim'' else fr_claim r)"

definition structureResult ::
  "jsstring \<Rightarrow> workflow_input \<Rightarrow> news_result \<Rightarrow> sentiment_result \<Rightarrow> factcheck_result list \<Rightarrow>
   trend_result \<Rightarrow> briefing" where
  "structureResult now inputData newsResult sentimentResult factCheckResults trendResult =
     \<lparr>b_topic = wi_topic inputData,
      executiveSummary =
        \<lparr>keyFindings =
           [js ''Primary sentiment: '' @ sr_overallSentiment sentimentResult,
            js ''Trend direction: '' @ tr_trendDirection trendResult,
            js ''Source diversity: '' @ numberToString (length (nr_sources newsResult)) @
              js '' sources''],
         recommendedActions =
           [js ''Monitor developing situation'', js ''Prepare stakeholder communications'',
            js ''Review risk mitigation strategies''],
         riskLevel =
           (if greaterThan (map_of (sr_emotions sentimentResult) (js ''fear'')) 0.6 then js ''high''
            else if greaterThan (map_of (sr_emotions sentimentResult) (js ''anger'')) 0.5
            then js ''medium''
            else js ''low'')\<rparr>,
      newsAnalysis =
        \<lparr>na_summary = nr_summary newsResult,
         sourceCount = nr_articleCount newsResult,
         geographicScope =
           (case wi_region inputData of
              None \<Rightarrow> [js ''Global'']
            | Some region \<Rightarrow> if region = [] then [js ''Global''] else [region]),
         timelineSummary = js ''Coverage spans recent developments''\<rparr>,
      sentimentAnalysis =
        \<lparr>overallSentiment = sr_overallSentiment sentimentResult,
         publicMood =
           intToString (Math_round (sr_sentimentScore sentimentResult * 100)) @ js ''% positive'',
         emotionalDrivers =
           map fst (filter (\<lambda>(emotion, v). v > 0.5) (sr_emotions sentimentResult)),
         sentimentShift = js ''Analyzing temporal changes''\<rparr>,
      factChecking =
        \<lparr>verifiedClaims =
           map claimOrUnknown
             (filter (\<lambda>r. fr_verdict r = js ''true'' \<or> fr_verdict r = js ''mostly_true'')
                factCheckResults),
         disputedClaims =
           map claimOrUnknown
             (filter (\<lambda>r. fr_verdict r = js ''false'' \<or> fr_verdict r = js ''mostly_false'')
                factCheckResults),
         misinformationRisk =
           (if list_ex (\<lambda>r. fr_verdict r = js ''false'') factCheckResults then js ''high''
            else js ''low'')\<rparr>,
      trendAnalysis =
        \<lparr>currentTrend = tr_trendDirection trendResult,
         momentum = tr_momentum trendResult,
         predictions = map pr_scenario (tr_predictions trendResult),
         relatedTrends = map rt_topic (tr_relatedTopics trendResult)\<rparr>,
      strategicRecommendations =
        [\<lparr>action = js ''Implement monitoring dashboard'', priority = js ''immediate'',
          rationale = js ''Early detection of sentiment shifts''\<rparr>,
         \<lparr>action = js ''Develop response scenarios'', priority = js ''short-term'',
          rationale = js ''Prepare for predicted developments''\<rparr>,
         \<lparr>action = js ''Engage stakeholder communication'', priority = js ''immediate'',
          rationale = js ''Address current sentiment and concerns''\<rparr>],
      metadata =
        \<lparr>analysisDate = now,
         confidence = 0.85,
         dataQuality =
           (if length (nr_sources newsResult) > 5 then js ''excellent''
            else if length (nr_sources newsResult) > 2 then js ''good''
            else js ''fair'')\<rparr>\<rparr>"

definition fallbackBriefing :: "jsstring \<Rightarrow> jsstring \<Rightarrow> briefing" where
  "fallbackBriefing now topic =
     \<lparr>b_topic = topic,
      executiveSummary =
        \<lparr>keyFindings = [js ''Analysis failed due to technical issues''],
         recommendedActions = [js ''Retry the analysis'', js ''Check system configuration''],
         riskLevel = js ''medium''\<rparr>,
      newsAnalysis =
        \<lparr>na_summary = js ''Unable to fetch news due to technical issues'',
         sourceCount = 0,
         geographicScope = [js ''Unknown''],
         timelineSummary = js ''Analysis failed''\<rparr>,
      sentimentAnalysis =
        \<lparr>overallSentiment = js ''neutral'',
         publicMood = js ''Unable to determine'',
         emotionalDrivers = [],
         sentimentShift = js ''Analysis failed''\<rparr>,
      factChecking =
        \<lparr>verifiedClaims = [], disputedClaims = [], misinformationRisk = js ''low''\<rparr>,
      trendAnalysis =
        \<lparr>currentTrend = js ''stable'', momentum = 0, predictions = [], relatedTrends = []\<rparr>,
      strategicRecommendations =
        [\<lparr>action = js ''Retry analysis'', priority = js ''immediate'',
          rationale = js ''Technical issues prevented completion''\<rparr>],
      metadata = \<lparr>analysisDate = now, confidence = 0, dataQuality = js ''limited''\<rparr>\<rparr>"

subsection \<open>The step\<close>

text \<open>
  \<open>now\<close> is the ISO rendering of the instant at which the result is built; \<open>inputData\<close> is
  \<open>None\<close> when the step is run without input. First the body of the outer \<open>try\<close>, then
  \<open>execute\<close> with its \<open>catch\<close>.
\<close>

definition newsContext :: "workflow_input \<Rightarrow> news_context" where
  "newsContext inputData =
     \<lparr>nc_topic = wi_topic inputData,
      nc_count = Some (if wi_depth inputData = js ''deep'' then 10 else 5),
      nc_language = Some (wi_language inputData),
      nc_sortBy = Some (js ''publishedAt''),
      nc_timeRange = Some (if wi_depth inputData = js ''deep'' then js ''month'' else js ''week'')\<rparr>"

definition sentimentContext :: "workflow_input \<Rightarrow> news_result \<Rightarrow> sentiment_context" where
  "sentimentContext inputData newsResult =
     \<lparr>sc_text = nr_summary newsResult,
      sc_context = Some (js ''News about '' @ wi_topic inputData)\<rparr>"

definition trendContext :: "workflow_input \<Rightarrow> trend_context" where
  "trendContext inputData =
     \<lparr>tc_topic = wi_topic inputData,
      tc_timeframe = Some (if wi_depth inputData = js ''deep'' then js ''month'' else js ''week''),
      tc_region = wi_region inputData\<rparr>"

definition performComprehensiveAnalysis_try ::
  "steps \<Rightarrow> jsstring \<Rightarrow> workflow_input option \<Rightarrow> thrown + briefing" where
  "performComprehensiveAnalysis_try st now input =
     (case input of
        None \<Rightarrow> Inl (Error (js ''Input data required''))
      | Some inputData \<Rightarrow>
          (case newsStep st (newsContext inputData) of
             Inl error \<Rightarrow> Inl (Error (js ''News fetch failed: '' @ errorMessage error))
           | Inr newsResult \<Rightarrow>
               (case sentimentStep st (sentimentContext inputData newsResult) of
                  Inl error \<Rightarrow>
                    Inl (Error (js ''Sentiment analysis failed: '' @ errorMessage error))
                | Inr sentimentResult \<Rightarrow>
                    (let factCheckResults =
                           factCheckStage st (wi_topic inputData) (nr_summary newsResult)
                     in (case trendStep st (trendContext inputData) of
                           Inl error \<Rightarrow>
                             Inl (Error (js ''Trend analysis failed: '' @ errorMessage error))
                         | Inr trendResult \<Rightarrow>
                             Inr (structureResult now inputData newsResult sentimentResult
                                    factCheckResults trendResult))))))"

definition performComprehensiveAnalysis ::
  "steps \<Rightarrow> jsstring \<Rightarrow> workflow_input option \<Rightarrow> thrown + briefing" where
  "performComprehensiveAnalysis st now input =
     (case performComprehensiveAnalysis_try st now input of
        Inr result \<Rightarrow> Inr result
      | Inl error \<Rightarrow>
          Inr (fallbackBriefing now
                 (case input of
                    None \<Rightarrow> js ''unknown''
                  | Some inputData \<Rightarrow>
                      if wi_topic inputData = [] then js ''unknown'' else wi_topic inputData)))"

text \<open>The news step as the workflow calls it: the tool's \<open>execute\<close> in a world.\<close>

definition newsStepOf :: "world \<Rightarrow> news_context \<Rightarrow> thrown + news_result" where
  "newsStepOf w context = fst (newsTool w context)"

section \<open>Example inputs\<close>

text \<open>
  Concrete worlds, steps and inputs on which the theorems below are instantiated: an
  upstream that answers every request with status 200 and a given content, a parser that
  rejects its input, steps that settle to a fixed result and steps that reject.
\<close>

definition settling :: "'b \<Rightarrow> 'a \<Rightarrow> thrown + 'b" where
  "settling r c = Inr r"

definition settlingAt :: "'b \<Rightarrow> nat \<Rightarrow> 'a \<Rightarrow> thrown + 'b" where
  "settlingAt r i c = Inr r"

definition rejecting :: "'a \<Rightarrow> thrown + 'b" where
  "rejecting c = Inl NonError"

definition rejectingAt :: "nat \<Rightarrow> 'a \<Rightarrow> thrown + 'b" where
  "rejectingAt i c = Inl NonError"

definition exampleNow :: jsstring where
  "exampleNow = js ''2025-06-01T12:00:00.000Z''"

definition replyWith :: "jsstring \<Rightarrow> request \<Rightarrow> thrown + response" where
  "replyWith content req =
     Inr \<lparr>res_status = 200, res_text = Inr [],
          res_json = Inr (JObj [(js ''choices'',
            JArr [JObj [(js ''message'', JObj [(js ''content'', JStr content)])]])])\<rparr>"

definition rejectingParser :: "jsstring \<Rightarrow> json option" where
  "rejectingParser s = None"

definition constantClock :: "offset \<Rightarrow> jsstring" where
  "constantClock d = exampleNow"

definition constantRandom :: "nat \<Rightarrow> real" where
  "constantRandom k = 1 / 2"

definition exampleWorld :: "jsstring option \<Rightarrow> jsstring \<Rightarrow> world" where
  "exampleWorld key content =
     \<lparr>PERPLEXITY_API_KEY = key, fetch = replyWith content, JSON_parse = rejectingParser,
      engineMessage = js ''TypeError'', toISOString = constantClock,
      Math_random = constantRandom\<rparr>"

definition exampleInput :: workflow_input where
  "exampleInput =
     \<lparr>wi_topic = js ''energy'', wi_depth = js ''standard'', wi_language = js ''en'',
      wi_region = None\<rparr>"

definition exampleNews :: news_result where
  "exampleNews =
     \<lparr>nr_topic = js ''energy'',
      nr_summary = js ''The minister said '' @ [34] @ js ''prices fell'' @ [34] @ js '' on Monday.'',
      nr_timestamp = exampleNow, nr_articleCount = 5,
      nr_sources = [js ''Perplexity AI Analysis''], nr_language = js ''en''\<rparr>"

definition exampleSentiment :: sentiment_result where
  "exampleSentiment =
     \<lparr>sr_overallSentiment = js ''negative'', sr_sentimentScore = - 0.4,
      sr_emotions =
        [(js ''joy'', 0.1), (js ''anger'', 0.55), (js ''fear'', 0.7), (js ''sadness'', 0.2),
         (js ''surprise'', 0.1), (js ''trust'', 0.2)]\<rparr>"

definition exampleTrend :: trend_result where
  "exampleTrend = trendFallback (js ''energy'') (js ''week'') (js ''offline'')\<lparr>tr_momentum := 35\<rparr>"

definition exampleFactCheck :: factcheck_result where
  "exampleFactCheck =
     \<lparr>fr_claim = js ''prices fell'', fr_verdict = js ''false'', fr_confidence = 0.9,
      fr_evidence = [], fr_explanation = js ''Verdict: false'', fr_relatedClaims = [],
      fr_checkDate = exampleNow\<rparr>"

definition exampleSteps :: steps where
  "exampleSteps =
     \<lparr>newsStep = settling exampleNews, sentimentStep = settling exampleSentiment,
      factCheckStep = settlingAt exampleFactCheck, trendStep = settling exampleTrend\<rparr>"

section \<open>Properties of the workflow\<close>

lemma js_simps:
  "js [] = []" "js (c # cs) = of_char c # js cs"
  by (simp_all add: js_def)

lemma trim_Nil [simp]: "trim [] = []"
  by (simp add: trim_def)

lemma promiseAll_all_rejected:
  assumes "\<And>x. x \<in> set xs \<Longrightarrow> isl (f x)"
  shows "(case promiseAll (map f xs) of Inr rs \<Rightarrow> rs | Inl e \<Rightarrow> []) = []"
proof (cases xs)
  case Nil
  then show ?thesis by simp
next
  case (Cons a list)
  then have "isl (f a)" using assms by simp
  then obtain e where "f a = Inl e" by (auto simp: isl_def)
  with Cons show ?thesis by simp
qed

lemma factCheckStage_rejected:
  assumes "\<And>i c. isl (factCheckStep st i c)"
  shows "factCheckStage st topic summary = []"
  unfolding factCheckStage_def Let_def
  using promiseAll_all_rejected[of _ "\<lambda>(i, claim). factCheckStep st i
      \<lparr>fc_claim = filter notQuote claim, fc_sources = None, fc_context = Some topic\<rparr>"] assms
  by (auto simp: case_prod_beta)

lemma workflow_success:
  assumes "newsStep st (newsContext inputData) = Inr newsResult"
    and "sentimentStep st (sentimentContext inputData newsResult) = Inr sentimentResult"
    and "trendStep st (trendContext inputData) = Inr trendResult"
  shows "performComprehensiveAnalysis_try st now (Some inputData) =
           Inr (structureResult now inputData newsResult sentimentResult
                  (factCheckStage st (wi_topic inputData) (nr_summary newsResult)) trendResult)"
  using assms by (simp add: performComprehensiveAnalysis_try_def)

lemma execute_of_try:
  "performComprehensiveAnalysis_try st now input = Inr b \<Longrightarrow>
   performComprehensiveAnalysis st now input = Inr b"
  by (simp add: performComprehensiveAnalysis_def)

lemma quoted_example:
  "quotedMatches (nr_summary exampleNews) = [[34] @ js ''prices fell'' @ [34]]"
  by (simp add: exampleNews_def js_simps quoted_at_def oneOf_def isQuote_def notQuote_def
      greedy_def quotedMatches.simps)

subsection \<open>A failing news step\<close>

text \<open>
  Claim C2, as amended. If the news step rejects, \<open>execute\<close> settles, for every input and
  also without input, to the complete fallback briefing: confidence 0, data quality
  limited, risk level medium, every list section empty. Its topic is the input's topic
  when that is a non-empty string, and \<open>unknown\<close> when the input is absent or its topic is
  the empty string.
\<close>

theorem news_failure_returns_fallback:
  assumes "\<And>c. isl (newsStep st c)"
  shows "\<exists>b. performComprehensiveAnalysis st now input = Inr b \<and>
           b = fallbackBriefing now (b_topic b) \<and>
           b_topic b =
             (case input of
                None \<Rightarrow> js ''unknown''
              | Some inputData \<Rightarrow>
                  if wi_topic inputData = [] then js ''unknown'' else wi_topic inputData) \<and>
           confidence (metadata b) = 0 \<and>
           dataQuality (metadata b) = js ''limited'' \<and>
           riskLevel (executiveSummary b) = js ''medium'' \<and>
           verifiedClaims (factChecking b) = [] \<and>
           disputedClaims (factChecking b) = [] \<and>
           emotionalDrivers (sentimentAnalysis b) = [] \<and>
           predictions (trendAnalysis b) = [] \<and>
           relatedTrends (trendAnalysis b) = []"
proof (cases input)
  case None
  then show ?thesis
    by (simp add: performComprehensiveAnalysis_def performComprehensiveAnalysis_try_def
        fallbackBriefing_def)
next
  case (Some inputData)
  from assms obtain e where "newsStep st (newsContext inputData) = Inl e"
    by (auto simp: isl_def)
  with Some show ?thesis
    by (simp add: performComprehensiveAnalysis_def performComprehensiveAnalysis_try_def
        fallbackBriefing_def)
qed

theorem news_failure_returns_fallback_witness:
  "\<exists>b. performComprehensiveAnalysis (exampleSteps\<lparr>newsStep := rejecting\<rparr>) exampleNow
          (Some exampleInput) = Inr b \<and>
       b = fallbackBriefing exampleNow (js ''energy'') \<and>
       confidence (metadata b) = 0 \<and>
       dataQuality (metadata b) = js ''limited'' \<and>
       riskLevel (executiveSummary b) = js ''medium''"
  using news_failure_returns_fallback[of "exampleSteps\<lparr>newsStep := rejecting\<rparr>" exampleNow
      "Some exampleInput"]
  by (auto simp: rejecting_def exampleInput_def js_simps)

text \<open>
  The claim as stated fails on an input whose topic is the empty string: the input is
  there, and the fallback's topic is \<open>unknown\<close>, not the input's topic.
\<close>

theorem empty_topic_fallback_counterexample:
  "performComprehensiveAnalysis (exampleSteps\<lparr>newsStep := rejecting\<rparr>) exampleNow
     (Some (exampleInput\<lparr>wi_topic := []\<rparr>)) = Inr (fallbackBriefing exampleNow (js ''unknown'')) \<and>
   b_topic (fallbackBriefing exampleNow (js ''unknown'')) \<noteq> wi_topic (exampleInput\<lparr>wi_topic := []\<rparr>)"
  by (simp add: performComprehensiveAnalysis_def performComprehensiveAnalysis_try_def
      exampleSteps_def rejecting_def exampleInput_def fallbackBriefing_def js_simps)

subsection \<open>A failing fact-check step\<close>

text \<open>
  Claim C3. If the fact-check step rejects on every call while the news, sentiment and
  trend steps settle, \<open>execute\<close> settles to the structured result built from those three
  results: its news, sentiment and trend sections carry their data, and the verified and
  the disputed claims are both empty.
\<close>

theorem factcheck_failure_is_isolated:
  assumes "newsStep st (newsContext inputData) = Inr newsResult"
    and "sentimentStep st (sentimentContext inputData newsResult) = Inr sentimentResult"
    and "trendStep st (trendContext inputData) = Inr trendResult"
    and "\<And>i c. isl (factCheckStep st i c)"
  shows "\<exists>b. performComprehensiveAnalysis st now (Some inputData) = Inr b \<and>
           b = structureResult now inputData newsResult sentimentResult [] trendResult \<and>
           na_summary (newsAnalysis b) = nr_summary newsResult \<and>
           sourceCount (newsAnalysis b) = nr_articleCount newsResult \<and>
           overallSentiment (sentimentAnalysis b) = sr_overallSentiment sentimentResult \<and>
           currentTrend (trendAnalysis b) = tr_trendDirection trendResult \<and>
           momentum (trendAnalysis b) = tr_momentum trendResult \<and>
           verifiedClaims (factChecking b) = [] \<and>
           disputedClaims (factChecking b) = []"
  using execute_of_try[OF workflow_success[OF assms(1,2,3)]]
    factCheckStage_rejected[of st, OF assms(4)]
  by (simp add: structureResult_def)

theorem factcheck_failure_is_isolated_witness:
  "\<exists>b. performComprehensiveAnalysis (exampleSteps\<lparr>factCheckStep := rejectingAt\<rparr>) exampleNow
          (Some exampleInput) = Inr b \<and>
       b = structureResult exampleNow exampleInput exampleNews exampleSentiment [] exampleTrend \<and>
       na_summary (newsAnalysis b) = nr_summary exampleNews \<and>
       sourceCount (newsAnalysis b) = nr_articleCount exampleNews \<and>
       overallSentiment (sentimentAnalysis b) = sr_overallSentiment exampleSentiment \<and>
       currentTrend (trendAnalysis b) = tr_trendDirection exampleTrend \<and>
       momentum (trendAnalysis b) = tr_momentum exampleTrend \<and>
       verifiedClaims (factChecking b) = [] \<and>
       disputedClaims (factChecking b) = []"
  using factcheck_failure_is_isolated[of "exampleSteps\<lparr>factCheckStep := rejectingAt\<rparr>"
      exampleInput exampleNews exampleSentiment exampleTrend exampleNow]
  by (simp add: exampleSteps_def rejectingAt_def settling_def)

subsection \<open>The derived risk levels\<close>

text \<open>
  Claim C9. When the news, sentiment and trend steps settle, \<open>execute\<close> settles to
  \<open>structureResult\<close> of the step results, a function of these results and the clock alone
  (it has no access to a step or to the network). The risk level is high if the emotion
  fear is above 0.6, else medium if anger is above 0.5, else low; the misinformation risk
  is high exactly when some fact-check result has the verdict false, else low.
\<close>

theorem risk_levels_derived:
  assumes "newsStep st (newsContext inputData) = Inr newsResult"
    and "sentimentStep st (sentimentContext inputData newsResult) = Inr sentimentResult"
    and "trendStep st (trendContext inputData) = Inr trendResult"
  shows "\<exists>b. performComprehensiveAnalysis st now (Some inputData) = Inr b \<and>
           b = structureResult now inputData newsResult sentimentResult
                 (factCheckStage st (wi_topic inputData) (nr_summary newsResult)) trendResult \<and>
           riskLevel (executiveSummary b) =
             (if \<exists>v. map_of (sr_emotions sentimentResult) (js ''fear'') = Some v \<and> v > 0.6
              then js ''high''
              else if \<exists>v. map_of (sr_emotions sentimentResult) (js ''anger'') = Some v \<and> v > 0.5
              then js ''medium''
              else js ''low'') \<and>
           misinformationRisk (factChecking b) =
             (if \<exists>r. r \<in> set (factCheckStage st (wi_topic inputData) (nr_summary newsResult)) \<and>
                     fr_verdict r = js ''false''
              then js ''high''
              else js ''low'')"
proof -
  have g: "greaterThan x c \<longleftrightarrow> (\<exists>v. x = Some v \<and> v > c)" for x c
    by (cases x) (simp_all add: greaterThan_def)
  have e: "list_ex P xs \<longleftrightarrow> (\<exists>r. r \<in> set xs \<and> P r)" for P and xs :: "factcheck_result list"
    by (auto simp: list_ex_iff)
  let ?b = "structureResult now inputData newsResult sentimentResult
              (factCheckStage st (wi_topic inputData) (nr_summary newsResult)) trendResult"
  have 1: "performComprehensiveAnalysis st now (Some inputData) = Inr ?b"
    by (rule execute_of_try[OF workflow_success[OF assms]])
  have 2: "riskLevel (executiveSummary ?b) =
             (if greaterThan (map_of (sr_emotions sentimentResult) (js ''fear'')) 0.6 then js ''high''
              else if greaterThan (map_of (sr_emotions sentimentResult) (js ''anger'')) 0.5
              then js ''medium''
              else js ''low'')"
    by (simp add: structureResult_def)
  have 3: "misinformationRisk (factChecking ?b) =
             (if list_ex (\<lambda>r. fr_verdict r = js ''false'')
                   (factCheckStage st (wi_topic inputData) (nr_summary newsResult))
              then js ''high''
              else js ''low'')"
    by (simp add: structureResult_def)
  show ?thesis
    using 1 2 3 unfolding g e by blast
qed

theorem risk_levels_derived_witness:
  "\<exists>b. performComprehensiveAnalysis exampleSteps exampleNow (Some exampleInput) = Inr b \<and>
       riskLevel (executiveSummary b) = js ''high'' \<and>
       misinformationRisk (factChecking b) = js ''high''"
proof -
  have f: "factCheckStage exampleSteps (wi_topic exampleInput) (nr_summary exampleNews) =
             [exampleFactCheck]"
    by (simp add: factCheckStage_def quoted_example exampleSteps_def settlingAt_def)
  have n: "newsStep exampleSteps (newsContext exampleInput) = Inr exampleNews"
    and s: "sentimentStep exampleSteps (sentimentContext exampleInput exampleNews) =
              Inr exampleSentiment"
    and t: "trendStep exampleSteps (trendContext exampleInput) = Inr exampleTrend"
    by (simp_all add: exampleSteps_def settling_def)
  from risk_levels_derived[OF n s t, of exampleNow] obtain b where
    b1: "performComprehensiveAnalysis exampleSteps exampleNow (Some exampleInput) = Inr b" and
    b2: "riskLevel (executiveSummary b) =
             (if \<exists>v. map_of (sr_emotions exampleSentiment) (js ''fear'') = Some v \<and> v > 0.6
              then js ''high''
              else if \<exists>v. map_of (sr_emotions exampleSentiment) (js ''anger'') = Some v \<and> v > 0.5
              then js ''medium''
              else js ''low'')" and
    b3: "misinformationRisk (factChecking b) =
             (if \<exists>r. r \<in> set (factCheckStage exampleSteps (wi_topic exampleInput)
                                  (nr_summary exampleNews)) \<and>
                     fr_verdict r = js ''false''
              then js ''high''
              else js ''low'')"
    by blast
  have A: "\<exists>v. map_of (sr_emotions exampleSentiment) (js ''fear'') = Some v \<and> v > 0.6"
    by (intro exI[of _ "0.7"]) (simp add: exampleSentiment_def js_simps)
  have B: "\<exists>r. r \<in> set (factCheckStage exampleSteps (wi_topic exampleInput)
                         (nr_summary exampleNews)) \<and> fr_verdict r = js ''false''"
    unfolding f by (simp add: exampleFactCheck_def)
  from b2 A have "riskLevel (executiveSummary b) = js ''high''" by (simp only: if_True)
  moreover from b3 B have "misinformationRisk (factChecking b) = js ''high''"
    by (simp only: if_True)
  ultimately show ?thesis using b1 by blast
qed

subsection \<open>The data quality\<close>

text \<open>
  Claim C10. The news tool settles with exactly one source, on its success path and on
  its fallback path alike. Hence, when the workflow calls that tool and the body of its
  \<open>try\<close> completes (the top-level \<open>catch\<close> is not taken), the data quality of the result
  is fair.
\<close>

lemma newsTool_sources:
  "\<exists>r sent. newsTool w c = (Inr r, sent) \<and> length (nr_sources r) = 1"
  by (auto simp: newsTool_def newsTool_try_def newsFallback_def Let_def split: sum.splits)

theorem data_quality_always_fair:
  assumes "newsStep st = newsStepOf w"
    and "performComprehensiveAnalysis_try st now input = Inr b"
  shows "performComprehensiveAnalysis st now input = Inr b \<and>
         dataQuality (metadata b) = js ''fair'' \<and>
         (\<forall>c. \<exists>r. newsStepOf w c = Inr r \<and> length (nr_sources r) = 1)"
proof -
  have s: "\<exists>r. newsStepOf w c = Inr r \<and> length (nr_sources r) = 1" for c
    using newsTool_sources[of w c] by (auto simp: newsStepOf_def)
  from assms(2) obtain inputData newsResult sentimentResult trendResult where
    n: "newsStep st (newsContext inputData) = Inr newsResult" and
    b: "b = structureResult now inputData newsResult sentimentResult
              (factCheckStage st (wi_topic inputData) (nr_summary newsResult)) trendResult"
    by (auto simp: performComprehensiveAnalysis_try_def split: option.splits sum.splits)
  from n s[of "newsContext inputData"] assms(1) have "length (nr_sources newsResult) = 1" by auto
  then have "dataQuality (metadata b) = js ''fair''"
    by (simp add: b structureResult_def)
  with s execute_of_try[OF assms(2)] show ?thesis by blast
qed

theorem data_quality_always_fair_witness:
  "performComprehensiveAnalysis_try
     (exampleSteps\<lparr>newsStep := newsStepOf (exampleWorld (Some (js ''key'')) (js ''No news.''))\<rparr>)
     exampleNow (Some exampleInput) =
   Inr (structureResult exampleNow exampleInput
          (exampleNews\<lparr>nr_summary := js ''No news.''\<rparr>) exampleSentiment [] exampleTrend) \<and>
   dataQuality (metadata (structureResult exampleNow exampleInput
          (exampleNews\<lparr>nr_summary := js ''No news.''\<rparr>) exampleSentiment [] exampleTrend)) =
     js ''fair''"
proof -
  have n: "newsStepOf (exampleWorld (Some (js ''key'')) (js ''No news.'')) (newsContext exampleInput)
           = Inr (exampleNews\<lparr>nr_summary := js ''No news.''\<rparr>)"
    by (simp add: newsStepOf_def newsTool_def newsTool_try_def keyMissing_def Let_def
        newsContext_def exampleInput_def exampleNews_def js_simps exampleWorld_def
        constantClock_def completion_def replyWith_def res_ok_def messageContent_def
        trim_def isWhiteSpace_def)
  have q: "quotedMatches (js ''No news.'') = []"
    by (simp add: js_simps quoted_at_def oneOf_def isQuote_def quotedMatches.simps)
  have h: "performComprehensiveAnalysis_try
     (exampleSteps\<lparr>newsStep := newsStepOf (exampleWorld (Some (js ''key'')) (js ''No news.''))\<rparr>)
     exampleNow (Some exampleInput) =
   Inr (structureResult exampleNow exampleInput
          (exampleNews\<lparr>nr_summary := js ''No news.''\<rparr>) exampleSentiment [] exampleTrend)"
    by (simp add: performComprehensiveAnalysis_try_def n exampleSteps_def settling_def
        factCheckStage_def q)
  show ?thesis
    using data_quality_always_fair[OF _ h, of "exampleWorld (Some (js ''key'')) (js ''No news.'')"] h
    by simp
qed

section \<open>Properties of the tools\<close>

lemma str_includes_sublist: "str_includes s k \<longleftrightarrow> sublist k s"
  by (induction s) (auto simp: sublist_Cons_right)

lemma sublist_appendR: "sublist xs zs \<Longrightarrow> sublist xs (ys @ zs)"
  by (auto simp: sublist_append)

lemma sublist_ConsR: "sublist xs zs \<Longrightarrow> sublist xs (y # zs)"
  by (auto simp: sublist_Cons_right)

lemma sublist_trans: "sublist xs ys \<Longrightarrow> sublist ys zs \<Longrightarrow> sublist xs zs"
  by (rule sublist_order.order_trans)

lemma key_in_message: "sublist (js ''PERPLEXITY_API_KEY'') keyMissingMessage"
proof -
  have "keyMissingMessage = js ''PERPLEXITY_API_KEY'' @ js '' environment variable is not set''"
    by (simp add: keyMissingMessage_def js_def)
  then show ?thesis by (metis sublist_append_rightI)
qed

lemma key_in_text: "sublist (js ''PERPLEXITY_API_KEY'') (a @ keyMissingMessage @ b)"
  using key_in_message sublist_appendI[of keyMissingMessage a b] sublist_trans by blast

lemma message_in_fallbackSummary: "sublist message (fallbackSummary topic fromDay nowDay language message)"
  unfolding fallbackSummary_def concat.simps
  by (intro sublist_appendR sublist_append_rightI)

subsection \<open>A missing credential\<close>

lemma keyMissing_None: "PERPLEXITY_API_KEY w = None \<Longrightarrow> keyMissing w"
  by (simp add: keyMissing_def)

lemma newsTool_key_missing:
  "keyMissing w \<Longrightarrow>
   newsTool w c =
     (Inr (newsFallback w (nc_topic c)
             (case nc_language c of None \<Rightarrow> js ''en'' | Some l \<Rightarrow> l)
             (case nc_timeRange c of None \<Rightarrow> js ''week'' | Some t \<Rightarrow> t)
             keyMissingMessage), [])"
  by (simp add: newsTool_def newsTool_try_def Let_def keyMissingError_def errorMessage_def)

lemma sentimentTool_key_missing:
  "keyMissing w \<Longrightarrow> trim (sc_text c) \<noteq> [] \<Longrightarrow>
   sentimentTool w c = (Inr (sentimentFallback keyMissingMessage), [])"
  by (auto simp: sentimentTool_def sentimentTool_try_def Let_def keyMissingError_def
      errorMessage_def)

lemma factCheckTool_key_missing:
  "keyMissing w \<Longrightarrow> trim (fc_claim c) \<noteq> [] \<Longrightarrow>
   factCheckTool w c = (Inr (factCheckFallback w (fc_claim c) keyMissingMessage), [])"
  by (auto simp: factCheckTool_def factCheckTool_try_def Let_def keyMissingError_def
      errorMessage_def)

lemma trendTool_key_missing:
  "keyMissing w \<Longrightarrow> trim (tc_topic c) \<noteq> [] \<Longrightarrow>
   trendTool w c =
     (Inr (trendFallback (tc_topic c)
             (case tc_timeframe c of None \<Rightarrow> js ''week'' | Some t \<Rightarrow> t)
             keyMissingMessage), [])"
  by (auto simp: trendTool_def trendTool_try_def Let_def keyMissingError_def errorMessage_def)

definition summaryOf :: "json \<Rightarrow> jsstring" where
  "summaryOf result = (case getProp result (js ''summary'') of Some (JStr t) \<Rightarrow> t | _ \<Rightarrow> [])"

lemma summaryOf_fallback:
  "summaryOf (sentimentFallback m) = js ''Sentiment analysis failed: '' @ m @ js ''. Using neutral fallback values.''"
  by (simp add: summaryOf_def sentimentFallback_def js_def)

text \<open>
  Claim C7, as amended. If the credential variable is absent, each of the four tools
  settles to its fallback record with the message that names the variable, and sends no
  request: the news tool for every topic, the sentiment, fact-check and trend tools for
  every required field that is not blank (not empty and not made of white space only).
\<close>

theorem missing_credential_returns_fallback:
  assumes "PERPLEXITY_API_KEY w = None"
  shows "(\<exists>r. newsTool w nc = (Inr r, []) \<and>
            r = newsFallback w (nc_topic nc)
                  (case nc_language nc of None \<Rightarrow> js ''en'' | Some l \<Rightarrow> l)
                  (case nc_timeRange nc of None \<Rightarrow> js ''week'' | Some t \<Rightarrow> t)
                  keyMissingMessage \<and>
            sublist (js ''PERPLEXITY_API_KEY'') (nr_summary r)) \<and>
         (trim (sc_text sc) \<noteq> [] \<longrightarrow>
            (\<exists>r. sentimentTool w sc = (Inr r, []) \<and> r = sentimentFallback keyMissingMessage \<and>
               sublist (js ''PERPLEXITY_API_KEY'') (summaryOf r))) \<and>
         (trim (fc_claim fc) \<noteq> [] \<longrightarrow>
            (\<exists>r. factCheckTool w fc = (Inr r, []) \<and>
               r = factCheckFallback w (fc_claim fc) keyMissingMessage \<and>
               sublist (js ''PERPLEXITY_API_KEY'') (fr_explanation r))) \<and>
         (trim (tc_topic tc) \<noteq> [] \<longrightarrow>
            (\<exists>r. trendTool w tc = (Inr r, []) \<and>
               r = trendFallback (tc_topic tc)
                     (case tc_timeframe tc of None \<Rightarrow> js ''week'' | Some t \<Rightarrow> t)
                     keyMissingMessage \<and>
               sublist (js ''PERPLEXITY_API_KEY'') (tr_analysis r)))"
proof -
  note k = keyMissing_None[OF assms]
  have 1: "sublist (js ''PERPLEXITY_API_KEY'') (nr_summary (newsFallback w t l r keyMissingMessage))"
    for t l r
    using sublist_trans[OF key_in_message message_in_fallbackSummary]
    by (simp add: newsFallback_def)
  have 2: "sublist (js ''PERPLEXITY_API_KEY'') (summaryOf (sentimentFallback keyMissingMessage))"
    unfolding summaryOf_fallback by (rule key_in_text)
  have 3: "sublist (js ''PERPLEXITY_API_KEY'') (fr_explanation (factCheckFallback w c keyMissingMessage))"
    for c
    by (simp add: factCheckFallback_def key_in_text)
  have 4: "sublist (js ''PERPLEXITY_API_KEY'') (tr_analysis (trendFallback t f keyMissingMessage))"
    for t f
    using key_in_text[of "js ''Trend analysis failed: ''"] by (simp add: trendFallback_def)
  show ?thesis
    using newsTool_key_missing[OF k] sentimentTool_key_missing[OF k]
      factCheckTool_key_missing[OF k] trendTool_key_missing[OF k] 1 2 3 4
    by simp
qed


lemmas eval_strings = js_simps trim_def isWhiteSpace_def

theorem missing_credential_returns_fallback_witness:
  "newsTool (exampleWorld None [])
     \<lparr>nc_topic = js ''energy'', nc_count = None, nc_language = None, nc_sortBy = None,
      nc_timeRange = None\<rparr> =
     (Inr (newsFallback (exampleWorld None []) (js ''energy'') (js ''en'') (js ''week'')
             keyMissingMessage), []) \<and>
   sentimentTool (exampleWorld None []) \<lparr>sc_text = js ''Prices fell.'', sc_context = None\<rparr> =
     (Inr (sentimentFallback keyMissingMessage), []) \<and>
   factCheckTool (exampleWorld None [])
     \<lparr>fc_claim = js ''prices fell'', fc_sources = None, fc_context = None\<rparr> =
     (Inr (factCheckFallback (exampleWorld None []) (js ''prices fell'') keyMissingMessage), []) \<and>
   trendTool (exampleWorld None [])
     \<lparr>tc_topic = js ''energy'', tc_timeframe = None, tc_region = None\<rparr> =
     (Inr (trendFallback (js ''energy'') (js ''week'') keyMissingMessage), [])"
  using missing_credential_returns_fallback[of "exampleWorld None []"
      "\<lparr>nc_topic = js ''energy'', nc_count = None, nc_language = None, nc_sortBy = None,
        nc_timeRange = None\<rparr>"
      "\<lparr>sc_text = js ''Prices fell.'', sc_context = None\<rparr>"
      "\<lparr>fc_claim = js ''prices fell'', fc_sources = None, fc_context = None\<rparr>"
      "\<lparr>tc_topic = js ''energy'', tc_timeframe = None, tc_region = None\<rparr>"]
  by (simp add: exampleWorld_def eval_strings)

text \<open>
  The claim as stated fails on a required field that is not empty but blank: the input
  check comes first, and the fallback text reports the input, not the credential.
\<close>

theorem blank_text_hides_missing_credential_counterexample:
  "sc_text \<lparr>sc_text = js '' '', sc_context = None\<rparr> \<noteq> [] \<and>
   PERPLEXITY_API_KEY (exampleWorld None []) = None \<and>
   sentimentTool (exampleWorld None []) \<lparr>sc_text = js '' '', sc_context = None\<rparr> =
     (Inr (sentimentFallback (js ''Text input is empty or invalid'')), []) \<and>
   \<not> sublist (js ''PERPLEXITY_API_KEY'')
       (summaryOf (sentimentFallback (js ''Text input is empty or invalid'')))"
  by (simp add: sentimentTool_def sentimentTool_try_def exampleWorld_def eval_strings
      errorMessage_def summaryOf_fallback str_includes_sublist[symmetric])

subsection \<open>An empty required field\<close>

text \<open>
  Claim C1. The sentiment, fact-check and trend tools check their required field before
  anything else and settle to their fallback without a request when it is empty. The news
  tool has no such check: with the credential present and the empty topic it sends its
  request and returns the upstream digest.
\<close>

theorem news_tool_requests_on_empty_topic:
  "newsTool (exampleWorld (Some (js ''key'')) (js ''No news.''))
     \<lparr>nc_topic = [], nc_count = None, nc_language = None, nc_sortBy = None,
      nc_timeRange = None\<rparr> =
     (Inr \<lparr>nr_topic = [], nr_summary = js ''No news.'', nr_timestamp = exampleNow,
           nr_articleCount = 5, nr_sources = [js ''Perplexity AI Analysis''],
           nr_language = js ''en''\<rparr>,
      [newsRequest (exampleWorld (Some (js ''key'')) (js ''No news.'')) 5 [] (js ''week'')
         (js ''en'') (js ''publishedAt'')])"
  by (simp add: newsTool_def newsTool_try_def keyMissing_def Let_def exampleWorld_def
      constantClock_def completion_def replyWith_def res_ok_def messageContent_def
      eval_strings)

lemma siblings_reject_empty_input:
  "sc_text sc = [] \<Longrightarrow>
     sentimentTool w sc = (Inr (sentimentFallback (js ''Text input is empty or invalid'')), [])"
  "fc_claim fc = [] \<Longrightarrow>
     factCheckTool w fc =
       (Inr (factCheckFallback w [] (js ''Claim input is empty or invalid'')), [])"
  "tc_topic tc = [] \<Longrightarrow>
     trendTool w tc =
       (Inr (trendFallback [] (case tc_timeframe tc of None \<Rightarrow> js ''week'' | Some t \<Rightarrow> t)
               (js ''Topic input is empty or invalid'')), [])"
  by (simp_all add: sentimentTool_def sentimentTool_try_def factCheckTool_def
      factCheckTool_try_def trendTool_def trendTool_try_def errorMessage_def)

subsection \<open>Content that is no JSON\<close>

text \<open>\<open>data.choices[0].message.content\<close>, read without the checks in between.\<close>

definition contentOf :: "json \<Rightarrow> json option" where
  "contentOf data =
     Option.bind (Option.bind (Option.bind (getProp data (js ''choices'')) getIndex0)
       (\<lambda>c. getProp c (js ''message''))) (\<lambda>m. getProp m (js ''content''))"

lemma getProp_truthy: "getProp v k = Some x \<Longrightarrow> truthy (Some v) \<and> v \<noteq> JNull"
  by (cases v) simp_all

lemma getIndex0_truthy: "getIndex0 v = Some x \<Longrightarrow> truthy (Some v)"
  by (cases v rule: getIndex0.cases) simp_all

lemma messageContent_content:
  assumes "contentOf data = Some (JStr s)" and "trim s \<noteq> []"
  shows "messageContent w data = Inr s"
proof -
  from assms(1) obtain choices choice message where
    c: "getProp data (js ''choices'') = Some choices" "getIndex0 choices = Some choice"
      "getProp choice (js ''message'') = Some message"
      "getProp message (js ''content'') = Some (JStr s)"
    by (auto simp: contentOf_def bind_eq_Some_conv)
  from assms(2) have "s \<noteq> []" by auto
  with c getProp_truthy[OF c(1)] getIndex0_truthy[OF c(2)] getProp_truthy[OF c(3)]
    getProp_truthy[OF c(4)] assms(2)
  show ?thesis by (simp add: messageContent_def)
qed

lemma completion_content:
  assumes "fetch w req = Inr res" and "res_ok res" and "res_json res = Inr data"
    and "contentOf data = Some (JStr s)" and "trim s \<noteq> []"
  shows "completion w label req = Inr s"
  using assms(1,2,3) messageContent_content[OF assms(4,5)] by (simp add: completion_def)

text \<open>
  Claim C8, as amended. When the sentiment request is answered with a success status and
  the content \<open>data.choices[0].message.content\<close> is a string that is not blank and that
  the JSON parser rejects, the tool settles to the fixed neutral-leaning default (neutral,
  score 0, joy and trust 0.5, the other emotions 0.1, subjectivity 0.5, confidence 0.7, no
  key phrases), which is not the hard-failure fallback.
\<close>

theorem unparseable_content_gets_neutral_default:
  assumes "trim (sc_text c) \<noteq> []" and "\<not> keyMissing w"
    and "fetch w (sentimentRequest w (sc_text c) (sc_context c)) = Inr res"
    and "res_ok res" and "res_json res = Inr data"
    and "contentOf data = Some (JStr content)" and "trim content \<noteq> []"
    and "JSON_parse w content = None"
  shows "sentimentTool w c =
           (Inr parseFallback, [sentimentRequest w (sc_text c) (sc_context c)]) \<and>
         getProp parseFallback (js ''overallSentiment'') = Some (JStr (js ''neutral'')) \<and>
         getProp parseFallback (js ''sentimentScore'') = Some (JNum 0) \<and>
         getProp parseFallback (js ''emotions'') =
           Some (JObj [(js ''joy'', JNum 0.5), (js ''anger'', JNum 0.1), (js ''fear'', JNum 0.1),
                       (js ''sadness'', JNum 0.1), (js ''surprise'', JNum 0.1),
                       (js ''trust'', JNum 0.5)]) \<and>
         getProp parseFallback (js ''subjectivity'') = Some (JNum 0.5) \<and>
         getProp parseFallback (js ''confidence'') = Some (JNum 0.7) \<and>
         getProp parseFallback (js ''keyPhrases'') = Some (JArr []) \<and>
         (\<forall>m. parseFallback \<noteq> sentimentFallback m)"
proof -
  have t: "sc_text c \<noteq> []" using assms(1) by auto
  have v: "validateSentiment w parseFallback = Inr parseFallback"
    by (simp add: validateSentiment_def parseFallback_def js_simps)
  have "sentimentTool w c = (Inr parseFallback, [sentimentRequest w (sc_text c) (sc_context c)])"
    using assms(1,2,8) t v completion_content[OF assms(3,4,5,6,7)]
    by (simp add: sentimentTool_def sentimentTool_try_def Let_def)
  moreover have "\<forall>m. parseFallback \<noteq> sentimentFallback m"
    by (simp add: parseFallback_def sentimentFallback_def)
  ultimately show ?thesis
    by (simp add: parseFallback_def js_simps)
qed

theorem unparseable_content_gets_neutral_default_witness:
  "sentimentTool (exampleWorld (Some (js ''key'')) (js ''I cannot answer that.''))
     \<lparr>sc_text = js ''Prices fell.'', sc_context = None\<rparr> =
   (Inr parseFallback,
    [sentimentRequest (exampleWorld (Some (js ''key'')) (js ''I cannot answer that.''))
       (js ''Prices fell.'') None])"
proof -
  let ?w = "exampleWorld (Some (js ''key'')) (js ''I cannot answer that.'')"
  let ?c = "\<lparr>sc_text = js ''Prices fell.'', sc_context = None\<rparr>"
  have 1: "trim (sc_text ?c) \<noteq> []" by (simp add: eval_strings)
  have 2: "\<not> keyMissing ?w" by (simp add: keyMissing_def exampleWorld_def js_simps)
  have 3: "fetch ?w (sentimentRequest ?w (sc_text ?c) (sc_context ?c)) =
             Inr \<lparr>res_status = 200, res_text = Inr [],
                  res_json = Inr (JObj [(js ''choices'',
                    JArr [JObj [(js ''message'',
                      JObj [(js ''content'', JStr (js ''I cannot answer that.''))])]])])\<rparr>"
    by (simp add: exampleWorld_def replyWith_def)
  have 4: "contentOf (JObj [(js ''choices'',
                    JArr [JObj [(js ''message'',
                      JObj [(js ''content'', JStr (js ''I cannot answer that.''))])]])]) =
           Some (JStr (js ''I cannot answer that.''))"
    by (simp add: contentOf_def js_simps)
  have 5: "trim (js ''I cannot answer that.'') \<noteq> []" by (simp add: eval_strings)
  have 6: "JSON_parse ?w (js ''I cannot answer that.'') = None"
    by (simp add: exampleWorld_def rejectingParser_def)
  show ?thesis
    using unparseable_content_gets_neutral_default[OF 1 2 3 _ _ 4 5 6] by (simp add: res_ok_def)
qed

text \<open>
  The claim as stated fails on content that is not empty but blank: it is no JSON, yet
  the emptiness check before the parser throws, and the tool takes the hard-failure path.
\<close>

theorem blank_content_takes_failure_path_counterexample:
  "js '' '' \<noteq> [] \<and>
   JSON_parse (exampleWorld (Some (js ''key'')) (js '' '')) (js '' '') = None \<and>
   contentOf (JObj [(js ''choices'',
      JArr [JObj [(js ''message'', JObj [(js ''content'', JStr (js '' ''))])]])]) =
     Some (JStr (js '' '')) \<and>
   sentimentTool (exampleWorld (Some (js ''key'')) (js '' ''))
     \<lparr>sc_text = js ''Prices fell.'', sc_context = None\<rparr> =
   (Inr (sentimentFallback (js ''Empty response from Perplexity API'')),
    [sentimentRequest (exampleWorld (Some (js ''key'')) (js '' '')) (js ''Prices fell.'') None]) \<and>
   sentimentFallback (js ''Empty response from Perplexity API'') \<noteq> parseFallback"
  by (simp add: sentimentTool_def sentimentTool_try_def keyMissing_def Let_def exampleWorld_def
      rejectingParser_def completion_def replyWith_def res_ok_def messageContent_def
      emptyResponse_def errorMessage_def contentOf_def eval_strings
      sentimentFallback_def parseFallback_def)


subsection \<open>The trend direction\<close>

text \<open>A text mentions a keyword when some stretch of it equals the keyword up to case.\<close>

definition mentions :: "jsstring \<Rightarrow> jsstring \<Rightarrow> bool" where
  "mentions t k \<longleftrightarrow> (\<exists>a b c. t = a @ b @ c \<and> toLowerCase b = k)"

lemma includes_lower_mentions: "str_includes (toLowerCase t) k \<longleftrightarrow> mentions t k"
proof -
  have "sublist k (map toLowerUnit t) \<longleftrightarrow> (\<exists>a b c. t = a @ b @ c \<and> map toLowerUnit b = k)"
  proof
    assume "sublist k (map toLowerUnit t)"
    then obtain ps ss where "map toLowerUnit t = ps @ k @ ss" by (auto simp: sublist_def)
    then obtain a r where a: "t = a @ r" "k @ ss = map toLowerUnit r"
      unfolding map_eq_append_conv by blast
    then obtain b c where "r = b @ c" "map toLowerUnit b = k"
      unfolding append_eq_map_conv by blast
    with a show "\<exists>a b c. t = a @ b @ c \<and> map toLowerUnit b = k" by blast
  next
    assume "\<exists>a b c. t = a @ b @ c \<and> map toLowerUnit b = k"
    then obtain a b c where "t = a @ b @ c" "map toLowerUnit b = k" by blast
    then have "map toLowerUnit t = map toLowerUnit a @ k @ map toLowerUnit c" by simp
    then show "sublist k (map toLowerUnit t)" by (simp only: sublist_appendI)
  qed
  then show ?thesis
    by (simp add: str_includes_sublist mentions_def toLowerCase_def)
qed

lemma trendDirectionOf_mentions:
  "trendDirectionOf t =
     (if mentions t (js ''rising'') then js ''rising''
      else if mentions t (js ''declining'') then js ''declining''
      else if mentions t (js ''volatile'') then js ''volatile''
      else js ''stable'')"
  by (simp add: trendDirectionOf_def includes_lower_mentions)

text \<open>
  Claim C6, as amended. On every successful trend response the direction is found by a
  search that ignores case, the first hit in the order rising, declining, volatile
  winning, and stable when there is none. In particular a text that mentions declining
  and does not mention rising gives declining, and a text that mentions none of the three
  keywords gives stable.
\<close>

theorem trend_direction_by_priority:
  assumes "trim (tc_topic c) \<noteq> []" and "\<not> keyMissing w"
    and "req = trendRequest w (tc_topic c)
                 (case tc_timeframe c of None \<Rightarrow> js ''week'' | Some t \<Rightarrow> t) (tc_region c)"
    and "fetch w req = Inr res"
    and "res_ok res" and "res_json res = Inr data"
    and "contentOf data = Some (JStr analysisText)" and "trim analysisText \<noteq> []"
  shows "\<exists>r. trendTool w c = (Inr r, [req]) \<and>
           tr_analysis r = analysisText \<and>
           tr_trendDirection r =
             (if mentions analysisText (js ''rising'') then js ''rising''
              else if mentions analysisText (js ''declining'') then js ''declining''
              else if mentions analysisText (js ''volatile'') then js ''volatile''
              else js ''stable'') \<and>
           (mentions analysisText (js ''declining'') \<and> \<not> mentions analysisText (js ''rising'')
              \<longrightarrow> tr_trendDirection r = js ''declining'') \<and>
           (\<not> mentions analysisText (js ''rising'') \<and>
            \<not> mentions analysisText (js ''declining'') \<and>
            \<not> mentions analysisText (js ''volatile'')
              \<longrightarrow> tr_trendDirection r = js ''stable'')"
proof -
  have t: "tc_topic c \<noteq> []" using assms(1) by auto
  show ?thesis
    using assms(1,2) t completion_content[OF assms(4,5,6,7,8)] trendDirectionOf_mentions
    by (simp add: trendTool_def trendTool_try_def Let_def assms(3)[symmetric])
qed

definition exampleTrendContext :: trend_context where
  "exampleTrendContext = \<lparr>tc_topic = js ''energy'', tc_timeframe = None, tc_region = None\<rparr>"

lemma contentOf_reply:
  "contentOf (JObj [(js ''choices'',
      JArr [JObj [(js ''message'', JObj [(js ''content'', JStr content)])]])]) =
   Some (JStr content)"
  by (simp add: contentOf_def js_simps)

theorem trend_direction_by_priority_witness:
  "(\<exists>r sent. trendTool (exampleWorld (Some (js ''key'')) (js ''Demand is Declining.''))
       exampleTrendContext = (Inr r, sent) \<and>
     tr_trendDirection r = js ''declining'') \<and>
   (\<exists>r sent. trendTool (exampleWorld (Some (js ''key'')) (js ''Nothing new.''))
       exampleTrendContext = (Inr r, sent) \<and>
     tr_trendDirection r = js ''stable'')"
proof -
  have 1: "trim (tc_topic exampleTrendContext) \<noteq> []"
    by (simp add: exampleTrendContext_def eval_strings)
  have 2: "\<not> keyMissing (exampleWorld (Some (js ''key'')) t)" for t
    by (simp add: keyMissing_def exampleWorld_def js_simps)
  have 3: "fetch (exampleWorld (Some (js ''key'')) t) req =
             Inr \<lparr>res_status = 200, res_text = Inr [],
                  res_json = Inr (JObj [(js ''choices'',
                    JArr [JObj [(js ''message'', JObj [(js ''content'', JStr t)])]])])\<rparr>" for req t
    by (simp add: exampleWorld_def replyWith_def)
  let ?t = "js ''Demand is Declining.''"
  have 5: "trim ?t \<noteq> []" by (simp add: eval_strings)
  have d: "mentions ?t (js ''declining'')"
    unfolding includes_lower_mentions[symmetric]
    by (simp add: js_simps toLowerCase_def toLowerUnit_def)
  have r: "\<not> mentions ?t (js ''rising'')"
    unfolding includes_lower_mentions[symmetric]
    by (simp add: js_simps toLowerCase_def toLowerUnit_def)
  from trend_direction_by_priority[OF 1 2 refl 3 _ _ contentOf_reply 5] d r
  have first: "\<exists>r sent. trendTool (exampleWorld (Some (js ''key'')) ?t)
       exampleTrendContext = (Inr r, sent) \<and> tr_trendDirection r = js ''declining''"
    by (auto simp: res_ok_def)
  let ?u = "js ''Nothing new.''"
  have 6: "trim ?u \<noteq> []" by (simp add: eval_strings)
  have n: "\<not> mentions ?u (js ''rising'')" "\<not> mentions ?u (js ''declining'')"
    "\<not> mentions ?u (js ''volatile'')"
    unfolding includes_lower_mentions[symmetric]
    by (simp_all add: js_simps toLowerCase_def toLowerUnit_def)
  from trend_direction_by_priority[OF 1 2 refl 3 _ _ contentOf_reply 6] n
  have "\<exists>r sent. trendTool (exampleWorld (Some (js ''key'')) ?u)
       exampleTrendContext = (Inr r, sent) \<and> tr_trendDirection r = js ''stable''"
    by (auto simp: res_ok_def)
  with first show ?thesis by blast
qed

text \<open>
  The claim as stated fails on a text that mentions both rising and declining: it
  contains declining, and the direction is rising.
\<close>

theorem declining_after_rising_counterexample:
  "sublist (js ''declining'') (js ''Interest was rising and is now declining.'') \<and>
   map_sum id tr_trendDirection
     (fst (trendTool (exampleWorld (Some (js ''key''))
                        (js ''Interest was rising and is now declining.''))
             exampleTrendContext)) = Inr (js ''rising'') \<and>
   js ''rising'' \<noteq> js ''declining''"
  by (simp add: trendTool_def trendTool_try_def keyMissing_def Let_def exampleWorld_def
      exampleTrendContext_def completion_def replyWith_def res_ok_def messageContent_def
      trendDirectionOf_def toLowerCase_def toLowerUnit_def eval_strings
      str_includes_sublist[symmetric])


section \<open>Properties of the fact-check extraction\<close>

subsection \<open>Searching with a pattern\<close>

lemma first_some_map: "first_some f (map h xs) = first_some (\<lambda>x. f (h x)) xs"
  by (induction xs) (auto split: option.splits)

lemma first_some_None_iff: "first_some f xs = None \<longleftrightarrow> (\<forall>x\<in>set xs. f x = None)"
  by (induction xs) (auto split: option.splits)

lemma drop_in_takeWhile:
  assumes "n < length (takeWhile p r)"
  shows "\<exists>c cs. drop n r = c # cs \<and> p c"
proof -
  have l: "n < length r" using assms length_takeWhile_le[of p r] by simp
  have "takeWhile p r ! n = r ! n" using assms by (rule takeWhile_nth)
  moreover have "takeWhile p r ! n \<in> set (takeWhile p r)" using assms by simp
  ultimately have "p (r ! n)" by (auto dest: set_takeWhileD)
  with Cons_nth_drop_Suc[OF l] show ?thesis by metis
qed

lemma drop_length_takeWhile: "drop (length (takeWhile p r)) r = dropWhile p r"
  by (induction r) auto

lemma greedy_backtrack:
  assumes "\<And>c cs. p c \<Longrightarrow> F (c # cs) = None"
  shows "first_some (\<lambda>(a, b). F b) (greedy 0 p r) = F (dropWhile p r)"
proof -
  let ?m = "length (takeWhile p r)"
  have "first_some (\<lambda>(a, b). F b) (greedy 0 p r) =
        first_some (\<lambda>n. F (drop n r)) (rev [0 ..< Suc ?m])"
    by (simp add: greedy_def first_some_map del: upt_Suc)
  also have "\<dots> = first_some (\<lambda>n. F (drop n r)) (?m # rev [0 ..< ?m])" by simp
  also have "\<dots> = (case F (dropWhile p r) of Some y \<Rightarrow> Some y
                    | None \<Rightarrow> first_some (\<lambda>n. F (drop n r)) (rev [0 ..< ?m]))"
    by (simp add: drop_length_takeWhile)
  also have "first_some (\<lambda>n. F (drop n r)) (rev [0 ..< ?m]) = None"
    unfolding first_some_None_iff using drop_in_takeWhile[of _ p r] assms by fastforce
  finally show ?thesis by (simp split: option.splits)
qed

lemma greedy_first:
  assumes "lo \<le> length (takeWhile p s)"
  shows "\<exists>rest. greedy lo p s = (takeWhile p s, dropWhile p s) # rest"
proof -
  let ?m = "length (takeWhile p s)"
  have "[lo ..< Suc ?m] = [lo ..< ?m] @ [?m]" using assms by simp
  then have "greedy lo p s = (take ?m s, drop ?m s) # map (\<lambda>n. (take n s, drop n s)) (rev [lo ..< ?m])"
    by (simp add: greedy_def del: upt_Suc)
  moreover have "take ?m s = takeWhile p s"
    by (induction s) auto
  ultimately show ?thesis by (simp add: drop_length_takeWhile)
qed

lemma greedy_empty: "length (takeWhile p s) < lo \<Longrightarrow> greedy lo p s = []"
  by (simp add: greedy_def)

lemma re_search_Some_iff:
  "re_search m s = Some r \<longleftrightarrow>
     (\<exists>i\<le>length s. m (drop i s) = Some r \<and> (\<forall>j<i. m (drop j s) = None))"
proof (induction s)
  case Nil
  then show ?case by auto
next
  case (Cons c cs)
  show ?case
  proof (cases "m (c # cs)")
    case (Some a)
    have "(\<exists>i\<le>length (c # cs). m (drop i (c # cs)) = Some r \<and> (\<forall>j<i. m (drop j (c # cs)) = None))
          \<longleftrightarrow> a = r"
    proof
      assume "\<exists>i\<le>length (c # cs). m (drop i (c # cs)) = Some r \<and> (\<forall>j<i. m (drop j (c # cs)) = None)"
      then obtain i where i: "m (drop i (c # cs)) = Some r" "\<forall>j<i. m (drop j (c # cs)) = None"
        by blast
      have "i = 0"
      proof (rule ccontr)
        assume "i \<noteq> 0"
        then have "m (drop 0 (c # cs)) = None" using i(2) by blast
        with Some show False by simp
      qed
      with i Some show "a = r" by simp
    next
      assume "a = r"
      with Some show "\<exists>i\<le>length (c # cs). m (drop i (c # cs)) = Some r \<and>
                        (\<forall>j<i. m (drop j (c # cs)) = None)"
        by (intro exI[of _ 0]) simp
    qed
    with Some show ?thesis by simp
  next
    case None
    have "(\<exists>i\<le>length (c # cs). m (drop i (c # cs)) = Some r \<and> (\<forall>j<i. m (drop j (c # cs)) = None))
          \<longleftrightarrow> (\<exists>i\<le>length cs. m (drop i cs) = Some r \<and> (\<forall>j<i. m (drop j cs) = None))"
    proof
      assume "\<exists>i\<le>length (c # cs). m (drop i (c # cs)) = Some r \<and> (\<forall>j<i. m (drop j (c # cs)) = None)"
      then obtain i where i: "i \<le> length (c # cs)" "m (drop i (c # cs)) = Some r"
        "\<forall>j<i. m (drop j (c # cs)) = None" by blast
      with None obtain i' where i': "i = Suc i'" by (cases i) auto
      have "\<forall>j<i'. m (drop j cs) = None"
      proof (intro allI impI)
        fix j assume "j < i'"
        then have "Suc j < i" using i' by simp
        with i(3) have "m (drop (Suc j) (c # cs)) = None" by blast
        then show "m (drop j cs) = None" by simp
      qed
      with i i' show "\<exists>i\<le>length cs. m (drop i cs) = Some r \<and> (\<forall>j<i. m (drop j cs) = None)"
        by (intro exI[of _ i']) simp
    next
      assume "\<exists>i\<le>length cs. m (drop i cs) = Some r \<and> (\<forall>j<i. m (drop j cs) = None)"
      then obtain i where i: "i \<le> length cs" "m (drop i cs) = Some r"
        "\<forall>j<i. m (drop j cs) = None" by blast
      have "\<forall>j<Suc i. m (drop j (c # cs)) = None"
      proof (intro allI impI)
        fix j assume j: "j < Suc i"
        show "m (drop j (c # cs)) = None"
        proof (cases j)
          case 0
          with None show ?thesis by simp
        next
          case (Suc j')
          with j i(3) show ?thesis by simp
        qed
      qed
      with i show "\<exists>i\<le>length (c # cs). m (drop i (c # cs)) = Some r \<and>
                     (\<forall>j<i. m (drop j (c # cs)) = None)"
        by (intro exI[of _ "Suc i"]) simp
    qed
    with None Cons.IH show ?thesis by simp
  qed
qed

lemma re_search_None_iff:
  "re_search m s = None \<longleftrightarrow> (\<forall>i\<le>length s. m (drop i s) = None)"
proof (induction s)
  case Nil
  then show ?case by simp
next
  case (Cons c cs)
  have "(\<forall>i\<le>length (c # cs). m (drop i (c # cs)) = None) \<longleftrightarrow>
        m (c # cs) = None \<and> (\<forall>i\<le>length cs. m (drop i cs) = None)"
  proof
    assume a: "\<forall>i\<le>length (c # cs). m (drop i (c # cs)) = None"
    then have "m (drop 0 (c # cs)) = None" by blast
    moreover have "\<forall>i\<le>length cs. m (drop i cs) = None"
    proof (intro allI impI)
      fix i assume "i \<le> length cs"
      then have "m (drop (Suc i) (c # cs)) = None" using a by auto
      then show "m (drop i cs) = None" by simp
    qed
    ultimately show "m (c # cs) = None \<and> (\<forall>i\<le>length cs. m (drop i cs) = None)" by simp
  next
    assume a: "m (c # cs) = None \<and> (\<forall>i\<le>length cs. m (drop i cs) = None)"
    show "\<forall>i\<le>length (c # cs). m (drop i (c # cs)) = None"
    proof (intro allI impI)
      fix i assume "i \<le> length (c # cs)"
      then show "m (drop i (c # cs)) = None" using a by (cases i) auto
    qed
  qed
  with Cons show ?case by (simp split: option.splits)
qed


subsection \<open>The verdict\<close>

lemma first_some_unique:
  assumes "x \<in> set xs" and "f x = Some y"
    and "\<And>x' y'. x' \<in> set xs \<Longrightarrow> f x' = Some y' \<Longrightarrow> y' = y"
  shows "first_some f xs = Some y"
proof (cases "first_some f xs")
  case None
  with assms(1,2) show ?thesis by (simp add: first_some_None_iff)
next
  case (Some y')
  from first_some_SomeD[OF Some] assms(3) show ?thesis using Some by auto
qed

lemma toLowerCase_length [simp]: "length (toLowerCase s) = length s"
  by (simp add: toLowerCase_def)

lemma toLowerCase_append [simp]: "toLowerCase (a @ b) = toLowerCase a @ toLowerCase b"
  by (simp add: toLowerCase_def)

lemma toLowerCase_take: "toLowerCase (take n s) = take n (toLowerCase s)"
  by (simp add: toLowerCase_def take_map)

lemma lit_iff:
  "lit k s = Some r \<longleftrightarrow> (\<exists>a. s = a @ r \<and> toLowerCase a = toLowerCase k)"
proof
  assume "lit k s = Some r"
  from lit_SomeD[OF this] show "\<exists>a. s = a @ r \<and> toLowerCase a = toLowerCase k" by metis
next
  assume "\<exists>a. s = a @ r \<and> toLowerCase a = toLowerCase k"
  then obtain a where a: "s = a @ r" "toLowerCase a = toLowerCase k" by blast
  then have "length a = length k" by (metis toLowerCase_length)
  with a show "lit k s = Some r" by (simp add: lit_def)
qed

lemma whiteSpace_lower: "isWhiteSpace c \<Longrightarrow> toLowerUnit c = c \<and> c \<noteq> 116 \<and> c \<noteq> 109 \<and> c \<noteq> 102 \<and> c \<noteq> 117"
  by (auto simp: isWhiteSpace_def toLowerUnit_def)

lemma verdictWords_lower: "v \<in> set verdictWords \<Longrightarrow> toLowerCase v = v"
  by (auto simp: verdictWords_def js_simps toLowerCase_def toLowerUnit_def)

lemma verdictWords_head:
  "v \<in> set verdictWords \<Longrightarrow> \<exists>x xs. v = x # xs \<and> (x = 116 \<or> x = 109 \<or> x = 102 \<or> x = 117)"
  by (auto simp: verdictWords_def js_simps)

lemma verdictWords_prefix_free:
  "a \<in> set verdictWords \<Longrightarrow> b \<in> set verdictWords \<Longrightarrow> prefix a b \<Longrightarrow> a = b"
  by (auto simp: verdictWords_def js_simps)

text \<open>The alternatives of the verdict pattern, tried in order on what follows the white space.\<close>

definition verdictWord :: "jsstring \<Rightarrow> (jsstring \<times> jsstring) option" where
  "verdictWord r1 =
     first_some (\<lambda>v.
       (case lit v r1 of
          None \<Rightarrow> None
        | Some r2 \<Rightarrow> Some (take (length v) r1, r2)))
       verdictWords"

lemma verdictWord_space: "isWhiteSpace c \<Longrightarrow> verdictWord (c # cs) = None"
proof -
  assume c: "isWhiteSpace c"
  have "lit v (c # cs) = None" if "v \<in> set verdictWords" for v
  proof -
    from verdictWords_head[OF that] obtain x xs where v: "v = x # xs"
      "x = 116 \<or> x = 109 \<or> x = 102 \<or> x = 117" by blast
    have "toLowerUnit x = x" using v(2) by (auto simp: toLowerUnit_def)
    with v whiteSpace_lower[OF c] show ?thesis
      by (auto simp: lit_def toLowerCase_def)
  qed
  then show ?thesis by (simp add: verdictWord_def first_some_None_iff)
qed

lemma verdict_at_alt:
  "verdict_at s =
     (case lit (js ''verdict:'') s of
        None \<Rightarrow> None
      | Some r \<Rightarrow> verdictWord (dropWhile isWhiteSpace r))"
  using greedy_backtrack[of isWhiteSpace verdictWord, OF verdictWord_space]
  by (simp add: verdict_at_def verdictWord_def[abs_def] split: option.splits)

lemma verdictWord_iff:
  "verdictWord r = Some (w, rest) \<longleftrightarrow> r = w @ rest \<and> toLowerCase w \<in> set verdictWords"
proof
  assume "verdictWord r = Some (w, rest)"
  then obtain v where v: "v \<in> set verdictWords" "lit v r = Some rest" "w = take (length v) r"
    unfolding verdictWord_def by (auto dest!: first_some_SomeD split: option.splits)
  from lit_SomeD[OF v(2)] v(1,3) show "r = w @ rest \<and> toLowerCase w \<in> set verdictWords"
    by (simp add: verdictWords_lower)
next
  assume a: "r = w @ rest \<and> toLowerCase w \<in> set verdictWords"
  let ?f = "\<lambda>v. (case lit v r of None \<Rightarrow> None | Some r2 \<Rightarrow> Some (take (length v) r, r2))"
  let ?v = "toLowerCase w"
  have 1: "?f ?v = Some (w, rest)"
  proof -
    have "lit ?v r = Some rest" using a by (auto simp: lit_iff verdictWords_lower)
    then show ?thesis using a by simp
  qed
  have 2: "y' = (w, rest)" if "v' \<in> set verdictWords" "?f v' = Some y'" for v' y'
  proof -
    from that(2) obtain r2 where r2: "lit v' r = Some r2" "y' = (take (length v') r, r2)"
      by (auto split: option.splits)
    from lit_SomeD[OF r2(1)] have p: "toLowerCase (take (length v') r) = v'"
      and l: "length (take (length v') r) = length v'"
      using that(1) by (simp_all add: verdictWords_lower)
    have "prefix v' (toLowerCase r)" using p by (metis toLowerCase_take take_is_prefix)
    moreover have "prefix ?v (toLowerCase r)" using a by simp
    ultimately have "prefix v' ?v \<or> prefix ?v v'" by (rule prefix_same_cases)
    with verdictWords_prefix_free that(1) a have "v' = ?v" by blast
    then have "length v' = length w" by simp
    with r2 a lit_SomeD[OF r2(1)] show ?thesis by simp
  qed
  have 3: "?v \<in> set verdictWords" using a by simp
  show "verdictWord r = Some (w, rest)"
    unfolding verdictWord_def
    by (rule first_some_unique[where f = ?f and x = ?v, OF 3 1]) (rule 2)
qed


text \<open>
  The text reads, at position \<open>i\<close>, \<open>verdict:\<close>, white space and then the verdict word
  \<open>v\<close>, all up to case.
\<close>

definition verdictAt :: "jsstring \<Rightarrow> nat \<Rightarrow> jsstring \<Rightarrow> bool" where
  "verdictAt t i v \<longleftrightarrow>
     i \<le> length t \<and> v \<in> set verdictWords \<and>
     (\<exists>k ws w rest. drop i t = k @ ws @ w @ rest \<and> toLowerCase k = js ''verdict:'' \<and>
        (\<forall>c\<in>set ws. isWhiteSpace c) \<and> toLowerCase w = v)"

lemma verdict_key_lower: "toLowerCase (js ''verdict:'') = js ''verdict:''"
  by (simp add: js_simps toLowerCase_def toLowerUnit_def)

lemma verdict_word_start:
  assumes "toLowerCase w \<in> set verdictWords"
  shows "dropWhile isWhiteSpace (w @ rest) = w @ rest"
proof -
  from verdictWords_head[OF assms] obtain y ys where
    y: "toLowerCase w = y # ys" "y = 116 \<or> y = 109 \<or> y = 102 \<or> y = 117" by blast
  then obtain x xs where x: "w = x # xs" "toLowerUnit x = y"
    by (auto simp: toLowerCase_def)
  with y(2) whiteSpace_lower[of x] have "\<not> isWhiteSpace x" by auto
  with x show ?thesis by simp
qed

lemma verdict_at_iff:
  "(\<exists>w rest. verdict_at s = Some (w, rest) \<and> toLowerCase w = v) \<longleftrightarrow>
   v \<in> set verdictWords \<and>
   (\<exists>k ws w rest. s = k @ ws @ w @ rest \<and> toLowerCase k = js ''verdict:'' \<and>
      (\<forall>c\<in>set ws. isWhiteSpace c) \<and> toLowerCase w = v)"
proof
  assume "\<exists>w rest. verdict_at s = Some (w, rest) \<and> toLowerCase w = v"
  then obtain w rest r where r: "lit (js ''verdict:'') s = Some r"
    and w: "verdictWord (dropWhile isWhiteSpace r) = Some (w, rest)" "toLowerCase w = v"
    by (auto simp: verdict_at_alt split: option.splits)
  from r obtain k where k: "s = k @ r" "toLowerCase k = js ''verdict:''"
    by (auto simp: lit_iff verdict_key_lower)
  from w(1) have d: "dropWhile isWhiteSpace r = w @ rest" "toLowerCase w \<in> set verdictWords"
    by (simp_all add: verdictWord_iff)
  have "r = takeWhile isWhiteSpace r @ w @ rest" using d(1) by (metis takeWhile_dropWhile_id)
  with k have "s = k @ takeWhile isWhiteSpace r @ w @ rest" by simp
  moreover have "\<forall>c\<in>set (takeWhile isWhiteSpace r). isWhiteSpace c"
    by (auto dest: set_takeWhileD)
  ultimately show "v \<in> set verdictWords \<and>
   (\<exists>k ws w rest. s = k @ ws @ w @ rest \<and> toLowerCase k = js ''verdict:'' \<and>
      (\<forall>c\<in>set ws. isWhiteSpace c) \<and> toLowerCase w = v)"
    using k(2) w(2) d(2) by blast
next
  assume "v \<in> set verdictWords \<and>
   (\<exists>k ws w rest. s = k @ ws @ w @ rest \<and> toLowerCase k = js ''verdict:'' \<and>
      (\<forall>c\<in>set ws. isWhiteSpace c) \<and> toLowerCase w = v)"
  then obtain k ws w rest where a: "v \<in> set verdictWords" "s = k @ ws @ w @ rest"
    "toLowerCase k = js ''verdict:''" "\<forall>c\<in>set ws. isWhiteSpace c" "toLowerCase w = v"
    by blast
  have "lit (js ''verdict:'') s = Some (ws @ w @ rest)"
    using a(2,3) by (auto simp: lit_iff verdict_key_lower)
  moreover have "dropWhile isWhiteSpace (ws @ w @ rest) = w @ rest"
    using a(1,4,5) by (simp add: verdict_word_start)
  moreover have "verdictWord (w @ rest) = Some (w, rest)"
    using a(1,5) by (simp add: verdictWord_iff)
  ultimately have "verdict_at s = Some (w, rest)" by (simp add: verdict_at_alt)
  with a(5) show "\<exists>w rest. verdict_at s = Some (w, rest) \<and> toLowerCase w = v" by blast
qed

lemma verdictAt_code:
  "verdictAt t i v \<longleftrightarrow>
     i \<le> length t \<and> (\<exists>w rest. verdict_at (drop i t) = Some (w, rest) \<and> toLowerCase w = v)"
  unfolding verdictAt_def verdict_at_iff by blast

lemma extractVerdict_first:
  assumes "verdictAt t i v" and "\<And>j u. j < i \<Longrightarrow> \<not> verdictAt t j u"
  shows "extractVerdict t = v"
proof -
  from assms(1) obtain w rest where i: "i \<le> length t"
    "verdict_at (drop i t) = Some (w, rest)" "toLowerCase w = v"
    by (auto simp: verdictAt_code)
  have "verdict_at (drop j t) = None" if "j < i" for j
  proof (cases "verdict_at (drop j t)")
    case None
    then show ?thesis .
  next
    case (Some a)
    obtain w' rest' where "a = (w', rest')" by (cases a)
    with Some that i(1) have "verdictAt t j (toLowerCase w')" by (simp add: verdictAt_code)
    with assms(2)[OF that] show ?thesis by blast
  qed
  with i(1,2) have "re_search verdict_at t = Some (w, rest)"
    unfolding re_search_Some_iff by blast
  with i(3) show ?thesis by (simp add: extractVerdict_def)
qed

lemma extractVerdict_default:
  assumes "\<And>i u. \<not> verdictAt t i u"
  shows "extractVerdict t = js ''unverifiable''"
proof -
  have "verdict_at (drop i t) = None" if "i \<le> length t" for i
  proof (cases "verdict_at (drop i t)")
    case None
    then show ?thesis .
  next
    case (Some a)
    obtain w' rest' where "a = (w', rest')" by (cases a)
    with Some that have "verdictAt t i (toLowerCase w')" by (simp add: verdictAt_code)
    with assms show ?thesis by blast
  qed
  then have "re_search verdict_at t = None" unfolding re_search_None_iff by blast
  then show ?thesis by (simp add: extractVerdict_def)
qed

subsection \<open>The confidence\<close>

text \<open>
  The number at the start of a text: its leading digits, with a decimal point and the
  digits after it when a point follows.
\<close>

definition leadingNumber :: "jsstring \<Rightarrow> jsstring" where
  "leadingNumber r =
     (case dropWhile isDigit r of
        [] \<Rightarrow> takeWhile isDigit r
      | c # cs \<Rightarrow>
          if c = 46 then takeWhile isDigit r @ [46] @ takeWhile isDigit cs
          else takeWhile isDigit r)"

definition startsWithDigit :: "jsstring \<Rightarrow> bool" where
  "startsWithDigit r = (case r of [] \<Rightarrow> False | d # ds \<Rightarrow> isDigit d)"

text \<open>
  The text reads, at position \<open>i\<close>, \<open>confidence:\<close> up to case, white space and then a
  digit; \<open>n\<close> is the number that starts there.
\<close>

definition confidenceAt :: "jsstring \<Rightarrow> nat \<Rightarrow> jsstring \<Rightarrow> bool" where
  "confidenceAt t i n \<longleftrightarrow>
     i \<le> length t \<and>
     (\<exists>k ws r. drop i t = k @ ws @ r \<and> toLowerCase k = js ''confidence:'' \<and>
        (\<forall>c\<in>set ws. isWhiteSpace c) \<and> startsWithDigit r \<and> n = leadingNumber r)"

text \<open>The number part of the confidence pattern, on what follows the white space.\<close>

definition numberWord :: "jsstring \<Rightarrow> (jsstring \<times> jsstring) option" where
  "numberWord r1 =
     first_some (\<lambda>(d1, r2).
       first_some (\<lambda>(dot, r3).
         first_some (\<lambda>(d2, r4). Some (d1 @ dot @ d2, r4))
           (greedy 0 isDigit r3))
         (optional (js ''.'') r2))
       (greedy 1 isDigit r1)"

lemma whiteSpace_not_digit: "isWhiteSpace c \<Longrightarrow> \<not> isDigit c"
  by (auto simp: isWhiteSpace_def isDigit_def)

lemma numberWord_space: "isWhiteSpace c \<Longrightarrow> numberWord (c # cs) = None"
  by (simp add: numberWord_def greedy_empty whiteSpace_not_digit)

lemma confidence_at_alt:
  "confidence_at s =
     (case lit (js ''confidence:'') s of
        None \<Rightarrow> None
      | Some r \<Rightarrow> numberWord (dropWhile isWhiteSpace r))"
  using greedy_backtrack[of isWhiteSpace numberWord, OF numberWord_space]
  by (simp add: confidence_at_def numberWord_def[abs_def] split: option.splits)

lemma js_point: "js ''.'' = [46]"
  by (simp add: js_simps)

lemma lit_point:
  "lit [46] [] = None"
  "lit [46] (c # cs) = (if c = 46 then Some cs else None)"
proof -
  have u: "toLowerUnit c = 46 \<longleftrightarrow> c = 46" by (auto simp: toLowerUnit_def)
  have p: "toLowerUnit 46 = 46" by (simp add: toLowerUnit_def)
  show "lit [46] [] = None" by (simp add: lit_def toLowerCase_def)
  show "lit [46] (c # cs) = (if c = 46 then Some cs else None)"
    by (simp add: lit_def toLowerCase_def p u)
qed

lemma digits_star: "\<exists>r4. first_some (\<lambda>(d2, r4). Some (a @ d2, r4)) (greedy 0 isDigit r3) =
                      Some (a @ takeWhile isDigit r3, r4)"
proof -
  from greedy_first[of 0 isDigit r3] obtain rest where
    "greedy 0 isDigit r3 = (takeWhile isDigit r3, dropWhile isDigit r3) # rest" by auto
  then show ?thesis by simp
qed

lemma takeWhile_after_dropWhile: "takeWhile p (dropWhile p r) = []"
  by (induction r) auto

lemma numberWord_iff:
  "(\<exists>rest. numberWord r = Some (n, rest)) \<longleftrightarrow> startsWithDigit r \<and> n = leadingNumber r"
proof (cases "startsWithDigit r")
  case False
  then have "takeWhile isDigit r = []" by (cases r) (auto simp: startsWithDigit_def)
  then have "numberWord r = None" by (simp add: numberWord_def greedy_empty)
  with False show ?thesis by simp
next
  case True
  then have "1 \<le> length (takeWhile isDigit r)" by (cases r) (auto simp: startsWithDigit_def)
  from greedy_first[OF this] obtain more where
    g: "greedy 1 isDigit r = (takeWhile isDigit r, dropWhile isDigit r) # more" by auto
  let ?d1 = "takeWhile isDigit r" and ?r2 = "dropWhile isDigit r"
  have "\<exists>rest. first_some (\<lambda>(dot, r3).
         first_some (\<lambda>(d2, r4). Some (?d1 @ dot @ d2, r4))
           (greedy 0 isDigit r3))
         (optional (js ''.'') ?r2) = Some (leadingNumber r, rest)"
  proof (cases "\<exists>cs. ?r2 = 46 # cs")
    case True
    then obtain cs where cs: "?r2 = 46 # cs" by blast
    have o: "optional (js ''.'') (46 # cs) = [([46], cs), ([], 46 # cs)]"
      by (simp add: optional_def lit_point js_point)
    from digits_star[of "?d1 @ [46]" cs] obtain r4 where
      "first_some (\<lambda>(d2, r4). Some ((?d1 @ [46]) @ d2, r4)) (greedy 0 isDigit cs) =
         Some ((?d1 @ [46]) @ takeWhile isDigit cs, r4)" by blast
    then have "first_some (\<lambda>(dot, r3).
         first_some (\<lambda>(d2, r4). Some (?d1 @ dot @ d2, r4))
           (greedy 0 isDigit r3))
         (optional (js ''.'') (46 # cs)) = Some (?d1 @ [46] @ takeWhile isDigit cs, r4)"
      by (simp add: o)
    moreover have "leadingNumber r = ?d1 @ [46] @ takeWhile isDigit cs"
      by (simp add: leadingNumber_def cs)
    ultimately show ?thesis using cs by auto
  next
    case False
    have "lit (js ''.'') ?r2 = None"
    proof (cases ?r2)
      case Nil
      show ?thesis unfolding Nil js_point by (rule lit_point(1))
    next
      case (Cons c cs)
      with False have "c \<noteq> 46" by simp
      then show ?thesis unfolding Cons js_point by (simp add: lit_point(2))
    qed
    then have o: "optional (js ''.'') ?r2 = [([], ?r2)]" by (simp add: optional_def)
    from digits_star[of ?d1 ?r2] obtain r4 where
      "first_some (\<lambda>(d2, r4). Some (?d1 @ d2, r4)) (greedy 0 isDigit ?r2) =
         Some (?d1 @ takeWhile isDigit ?r2, r4)" by blast
    then have "first_some (\<lambda>(dot, r3).
         first_some (\<lambda>(d2, r4). Some (?d1 @ dot @ d2, r4))
           (greedy 0 isDigit r3))
         (optional (js ''.'') ?r2) = Some (?d1, r4)"
      by (simp add: o takeWhile_after_dropWhile)
    moreover have "leadingNumber r = ?d1"
      using False by (simp add: leadingNumber_def split: list.splits)
    ultimately show ?thesis by auto
  qed
  then obtain rest where *: "first_some (\<lambda>(dot, r3).
         first_some (\<lambda>(d2, r4). Some (?d1 @ dot @ d2, r4))
           (greedy 0 isDigit r3))
         (optional (js ''.'') ?r2) = Some (leadingNumber r, rest)" by blast
  have "numberWord r = Some (leadingNumber r, rest)"
    unfolding numberWord_def g using * by simp
  with True show ?thesis by auto
qed

lemma confidence_key_lower: "toLowerCase (js ''confidence:'') = js ''confidence:''"
  by (simp add: js_simps toLowerCase_def toLowerUnit_def)

lemma number_start:
  assumes "startsWithDigit r"
  shows "dropWhile isWhiteSpace r = r"
  using assms whiteSpace_not_digit by (cases r) (auto simp: startsWithDigit_def)

lemma confidence_at_iff:
  "(\<exists>rest. confidence_at s = Some (n, rest)) \<longleftrightarrow>
   (\<exists>k ws r. s = k @ ws @ r \<and> toLowerCase k = js ''confidence:'' \<and>
      (\<forall>c\<in>set ws. isWhiteSpace c) \<and> startsWithDigit r \<and> n = leadingNumber r)"
proof
  assume "\<exists>rest. confidence_at s = Some (n, rest)"
  then obtain rest r where r: "lit (js ''confidence:'') s = Some r"
    and w: "numberWord (dropWhile isWhiteSpace r) = Some (n, rest)"
    by (auto simp: confidence_at_alt split: option.splits)
  from r obtain k where k: "s = k @ r" "toLowerCase k = js ''confidence:''"
    by (auto simp: lit_iff confidence_key_lower)
  from w numberWord_iff[of "dropWhile isWhiteSpace r" n]
  have d: "startsWithDigit (dropWhile isWhiteSpace r)" "n = leadingNumber (dropWhile isWhiteSpace r)"
    by blast+
  have "s = k @ takeWhile isWhiteSpace r @ dropWhile isWhiteSpace r" using k by simp
  moreover have "\<forall>c\<in>set (takeWhile isWhiteSpace r). isWhiteSpace c"
    by (auto dest: set_takeWhileD)
  ultimately show "\<exists>k ws r. s = k @ ws @ r \<and> toLowerCase k = js ''confidence:'' \<and>
      (\<forall>c\<in>set ws. isWhiteSpace c) \<and> startsWithDigit r \<and> n = leadingNumber r"
    using k(2) d by blast
next
  assume "\<exists>k ws r. s = k @ ws @ r \<and> toLowerCase k = js ''confidence:'' \<and>
      (\<forall>c\<in>set ws. isWhiteSpace c) \<and> startsWithDigit r \<and> n = leadingNumber r"
  then obtain k ws r where a: "s = k @ ws @ r" "toLowerCase k = js ''confidence:''"
    "\<forall>c\<in>set ws. isWhiteSpace c" "startsWithDigit r" "n = leadingNumber r" by blast
  have "lit (js ''confidence:'') s = Some (ws @ r)"
    using a(1,2) by (auto simp: lit_iff confidence_key_lower)
  moreover have "dropWhile isWhiteSpace (ws @ r) = r"
    using a(3,4) by (simp add: number_start)
  moreover from numberWord_iff[of r n] a(4,5) obtain rest where "numberWord r = Some (n, rest)"
    by blast
  ultimately have "confidence_at s = Some (n, rest)" by (simp add: confidence_at_alt)
  then show "\<exists>rest. confidence_at s = Some (n, rest)" by blast
qed

lemma confidenceAt_code:
  "confidenceAt t i n \<longleftrightarrow> i \<le> length t \<and> (\<exists>rest. confidence_at (drop i t) = Some (n, rest))"
  unfolding confidenceAt_def confidence_at_iff by blast

lemma extractConfidence_first:
  assumes "confidenceAt t i n" and "\<And>j m. j < i \<Longrightarrow> \<not> confidenceAt t j m"
  shows "extractConfidence t = parseFloat n / 100"
proof -
  from assms(1) obtain rest where i: "i \<le> length t" "confidence_at (drop i t) = Some (n, rest)"
    by (auto simp: confidenceAt_code)
  have "confidence_at (drop j t) = None" if "j < i" for j
  proof (cases "confidence_at (drop j t)")
    case None
    then show ?thesis .
  next
    case (Some a)
    obtain n' rest' where "a = (n', rest')" by (cases a)
    with Some that i(1) have "confidenceAt t j n'" by (simp add: confidenceAt_code)
    with assms(2)[OF that] show ?thesis by blast
  qed
  with i have "re_search confidence_at t = Some (n, rest)"
    unfolding re_search_Some_iff by blast
  then show ?thesis by (simp add: extractConfidence_def)
qed

lemma extractConfidence_default:
  assumes "\<And>i n. \<not> confidenceAt t i n"
  shows "extractConfidence t = 0.5"
proof -
  have "confidence_at (drop i t) = None" if "i \<le> length t" for i
  proof (cases "confidence_at (drop i t)")
    case None
    then show ?thesis .
  next
    case (Some a)
    obtain n' rest' where "a = (n', rest')" by (cases a)
    with Some that have "confidenceAt t i n'" by (simp add: confidenceAt_code)
    with assms show ?thesis by blast
  qed
  then have "re_search confidence_at t = None" unfolding re_search_None_iff by blast
  then show ?thesis by (simp add: extractConfidence_def)
qed

text \<open>What follows a number continues it: a digit, or a decimal point and a digit.\<close>

definition continuesNumber :: "jsstring \<Rightarrow> bool" where
  "continuesNumber b = (case b of [] \<Rightarrow> False | c # cs \<Rightarrow> isDigit c \<or> (c = 46 \<and> startsWithDigit cs))"

lemma verdict_example:
  assumes "t = a @ js ''Verdict: mostly_false'' @ b"
  shows "verdictAt t (length a) (js ''mostly_false'')"
proof -
  have s: "js ''Verdict: mostly_false'' = js ''Verdict:'' @ js '' '' @ js ''mostly_false''"
    by (simp add: js_def)
  have k: "toLowerCase (js ''Verdict:'') = js ''verdict:''"
    by (simp add: js_simps toLowerCase_def toLowerUnit_def)
  have sp: "\<forall>c\<in>set (js '' ''). isWhiteSpace c" by (simp add: js_simps isWhiteSpace_def)
  have m: "js ''mostly_false'' \<in> set verdictWords" by (simp add: verdictWords_def)
  have "drop (length a) t = js ''Verdict:'' @ js '' '' @ js ''mostly_false'' @ b"
    using assms by (simp add: s)
  with k sp m verdictWords_lower[OF m] show ?thesis
    unfolding verdictAt_def using assms by auto
qed

lemma number_72:
  assumes "\<not> continuesNumber b"
  shows "startsWithDigit (js ''72'' @ b) \<and> parseFloat (leadingNumber (js ''72'' @ b)) = 72"
proof (cases b)
  case Nil
  then show ?thesis
    by (simp add: js_simps startsWithDigit_def leadingNumber_def parseFloat_def isDigit_def
        digitsValue_def)
next
  case (Cons c cs)
  with assms have c: "\<not> isDigit c" "c = 46 \<longrightarrow> \<not> startsWithDigit cs"
    by (auto simp: continuesNumber_def)
  have t: "c = 46 \<Longrightarrow> takeWhile isDigit cs = []"
    using c(2) by (cases cs) (auto simp: startsWithDigit_def)
  have d: "isDigit 55" "isDigit 50" "\<not> isDigit 46" by (simp_all add: isDigit_def)
  show ?thesis
    using c(1) t d
    by (simp add: Cons js_simps startsWithDigit_def leadingNumber_def parseFloat_def
        digitsValue_def)
qed

lemma confidence_example:
  assumes "t = a @ js ''Confidence: 72'' @ b" and "\<not> continuesNumber b"
  shows "\<exists>n. confidenceAt t (length a) n \<and> parseFloat n = 72"
proof -
  have s: "js ''Confidence: 72'' = js ''Confidence:'' @ js '' '' @ js ''72''"
    by (simp add: js_def)
  have k: "toLowerCase (js ''Confidence:'') = js ''confidence:''"
    by (simp add: js_simps toLowerCase_def toLowerUnit_def)
  have sp: "\<forall>c\<in>set (js '' ''). isWhiteSpace c" by (simp add: js_simps isWhiteSpace_def)
  have "drop (length a) t = js ''Confidence:'' @ js '' '' @ (js ''72'' @ b)"
    using assms(1) by (simp add: s)
  with k sp number_72[OF assms(2)] have "confidenceAt t (length a) (leadingNumber (js ''72'' @ b))"
    unfolding confidenceAt_def using assms(1) by auto
  with number_72[OF assms(2)] show ?thesis by blast
qed

text \<open>
  Claim C4, as amended. On every successful fact-check response the verdict is the word of
  the first match of \<open>verdict:\<close>, white space and one of the six verdict words, up to
  case, and \<open>unverifiable\<close> when there is no match; the confidence is the number of the
  first match of \<open>confidence:\<close>, white space and a number, divided by 100, and 0.5 when
  there is no match. In particular, a text whose first verdict match is
  \<open>Verdict: mostly_false\<close> has the verdict \<open>mostly_false\<close>, and a text whose first
  confidence match is \<open>Confidence: 72\<close>, with no digit and no decimal part continuing the
  number, has the confidence 0.72.
\<close>

theorem verdict_and_confidence_extraction:
  assumes "trim (fc_claim c) \<noteq> []" and "\<not> keyMissing w"
    and "req = factCheckRequest w (fc_claim c) (fc_context c)
                 (case fc_sources c of None \<Rightarrow> [] | Some l \<Rightarrow> l)"
    and "fetch w req = Inr res" and "res_ok res" and "res_json res = Inr data"
    and "contentOf data = Some (JStr analysisText)" and "trim analysisText \<noteq> []"
  shows "\<exists>r. factCheckTool w c = (Inr r, [req]) \<and> fr_explanation r = analysisText \<and>
     (\<forall>i v. verdictAt analysisText i v \<and> (\<forall>j<i. \<forall>u. \<not> verdictAt analysisText j u) \<longrightarrow>
        fr_verdict r = v) \<and>
     ((\<forall>i v. \<not> verdictAt analysisText i v) \<longrightarrow> fr_verdict r = js ''unverifiable'') \<and>
     (\<forall>i n. confidenceAt analysisText i n \<and> (\<forall>j<i. \<forall>m. \<not> confidenceAt analysisText j m) \<longrightarrow>
        fr_confidence r = parseFloat n / 100) \<and>
     ((\<forall>i n. \<not> confidenceAt analysisText i n) \<longrightarrow> fr_confidence r = 0.5) \<and>
     (\<forall>a b. analysisText = a @ js ''Verdict: mostly_false'' @ b \<and>
        (\<forall>j<length a. \<forall>u. \<not> verdictAt analysisText j u) \<longrightarrow>
        fr_verdict r = js ''mostly_false'') \<and>
     (\<forall>a b. analysisText = a @ js ''Confidence: 72'' @ b \<and>
        (\<forall>j<length a. \<forall>m. \<not> confidenceAt analysisText j m) \<and> \<not> continuesNumber b \<longrightarrow>
        fr_confidence r = 0.72)"
proof -
  let ?r = "\<lparr>fr_claim = fc_claim c,
             fr_verdict = extractVerdict analysisText,
             fr_confidence = extractConfidence analysisText,
             fr_evidence = take 5 (extractEvidence analysisText),
             fr_explanation = analysisText,
             fr_relatedClaims = take 3 (extractRelated analysisText),
             fr_checkDate = toISOString w (Days 0)\<rparr>"
  have t: "fc_claim c \<noteq> []" using assms(1) by auto
  have tool: "factCheckTool w c = (Inr ?r, [req])"
    using assms(1,2) t completion_content[OF assms(4,5,6,7,8)]
    by (simp add: factCheckTool_def factCheckTool_try_def Let_def assms(3)[symmetric])
  have v1: "extractVerdict analysisText = v"
    if "verdictAt analysisText i v" "\<forall>j<i. \<forall>u. \<not> verdictAt analysisText j u" for i v
    using that by (intro extractVerdict_first[of analysisText i v]) auto
  have v2: "extractVerdict analysisText = js ''unverifiable''"
    if "\<forall>i v. \<not> verdictAt analysisText i v"
    using that by (intro extractVerdict_default) auto
  have c1: "extractConfidence analysisText = parseFloat n / 100"
    if "confidenceAt analysisText i n" "\<forall>j<i. \<forall>m. \<not> confidenceAt analysisText j m" for i n
    using that by (intro extractConfidence_first[of analysisText i n]) auto
  have c2: "extractConfidence analysisText = 0.5"
    if "\<forall>i n. \<not> confidenceAt analysisText i n"
    using that by (intro extractConfidence_default) auto
  have p1: "extractVerdict analysisText = js ''mostly_false''"
    if "analysisText = a @ js ''Verdict: mostly_false'' @ b"
      "\<forall>j<length a. \<forall>u. \<not> verdictAt analysisText j u" for a b
    using v1[OF verdict_example[OF that(1)] that(2)] .
  have p2: "extractConfidence analysisText = 0.72"
    if "analysisText = a @ js ''Confidence: 72'' @ b"
      "\<forall>j<length a. \<forall>m. \<not> confidenceAt analysisText j m" "\<not> continuesNumber b" for a b
  proof -
    from confidence_example[OF that(1,3)] obtain n where
      "confidenceAt analysisText (length a) n" "parseFloat n = 72" by blast
    with c1[OF this(1) that(2)] show ?thesis by simp
  qed
  have f: "fr_verdict ?r = extractVerdict analysisText"
    "fr_confidence ?r = extractConfidence analysisText" by simp_all
  show ?thesis
    apply (intro exI[of _ ?r] conjI)
    subgoal by (rule tool)
    subgoal by simp
    subgoal unfolding f using v1 by blast
    subgoal unfolding f using v2 by blast
    subgoal unfolding f using c1 by blast
    subgoal unfolding f using c2 by blast
    subgoal unfolding f using p1 by blast
    subgoal unfolding f using p2 by blast
    done
qed

definition exampleFactCheckContext :: factcheck_context where
  "exampleFactCheckContext = \<lparr>fc_claim = js ''prices fell'', fc_sources = None, fc_context = None\<rparr>"

lemma all_less_list: "(\<forall>j<n. P j) \<longleftrightarrow> list_all P [0 ..< n]"
  by (auto simp: list_all_iff)

lemmas eval_regex = greedy_def lit_def optional_def toLowerCase_def toLowerUnit_def
  isWhiteSpace_def isDigit_def notNewline_def js_simps

theorem verdict_and_confidence_extraction_witness:
  "(\<exists>r sent. factCheckTool
       (exampleWorld (Some (js ''key''))
          (js ''Verdict: mostly_false'' @ [10] @ js ''Confidence: 72''))
       exampleFactCheckContext = (Inr r, sent) \<and>
     fr_verdict r = js ''mostly_false'' \<and> fr_confidence r = 0.72) \<and>
   (\<exists>r sent. factCheckTool (exampleWorld (Some (js ''key'')) (js ''No opinion.''))
       exampleFactCheckContext = (Inr r, sent) \<and>
     fr_verdict r = js ''unverifiable'' \<and> fr_confidence r = 0.5)"
proof -
  have 1: "trim (fc_claim exampleFactCheckContext) \<noteq> []"
    by (simp add: exampleFactCheckContext_def eval_strings)
  have 2: "\<not> keyMissing (exampleWorld (Some (js ''key'')) t)" for t
    by (simp add: keyMissing_def exampleWorld_def js_simps)
  have 3: "fetch (exampleWorld (Some (js ''key'')) t) req =
             Inr \<lparr>res_status = 200, res_text = Inr [],
                  res_json = Inr (JObj [(js ''choices'',
                    JArr [JObj [(js ''message'', JObj [(js ''content'', JStr t)])]])])\<rparr>" for req t
    by (simp add: exampleWorld_def replyWith_def)
  let ?t = "js ''Verdict: mostly_false'' @ [10] @ js ''Confidence: 72''"
  let ?w = "exampleWorld (Some (js ''key'')) ?t"
  have 5: "trim ?t \<noteq> []" by (simp add: eval_strings)
  from verdict_and_confidence_extraction[OF 1 2 refl 3 _ _ contentOf_reply 5] obtain r sent where
    r: "factCheckTool ?w exampleFactCheckContext = (Inr r, sent)"
    and v: "\<forall>a b. ?t = a @ js ''Verdict: mostly_false'' @ b \<and>
        (\<forall>j<length a. \<forall>u. \<not> verdictAt ?t j u) \<longrightarrow> fr_verdict r = js ''mostly_false''"
    and c: "\<forall>a b. ?t = a @ js ''Confidence: 72'' @ b \<and>
        (\<forall>j<length a. \<forall>m. \<not> confidenceAt ?t j m) \<and> \<not> continuesNumber b \<longrightarrow>
        fr_confidence r = 0.72"
    by (auto simp: res_ok_def)
  have "fr_verdict r = js ''mostly_false''"
    using v[rule_format, of "[]" "[10] @ js ''Confidence: 72''"] by simp
  moreover have n: "\<forall>j<22. confidence_at (drop j ?t) = None"
    unfolding all_less_list by code_simp
  have "fr_confidence r = 0.72"
  proof (rule c[rule_format, of "js ''Verdict: mostly_false'' @ [10]" "[]"], intro conjI)
    show "?t = (js ''Verdict: mostly_false'' @ [10]) @ js ''Confidence: 72'' @ []" by simp
    have "length (js ''Verdict: mostly_false'' @ [10]) = 22" by (simp add: js_simps)
    with n show "\<forall>j<length (js ''Verdict: mostly_false'' @ [10]). \<forall>m. \<not> confidenceAt ?t j m"
      by (simp add: confidenceAt_code)
    show "\<not> continuesNumber []" by (simp add: continuesNumber_def)
  qed
  ultimately have first: "\<exists>r sent. factCheckTool ?w exampleFactCheckContext = (Inr r, sent) \<and>
     fr_verdict r = js ''mostly_false'' \<and> fr_confidence r = 0.72" using r by blast
  let ?u = "js ''No opinion.''"
  let ?w' = "exampleWorld (Some (js ''key'')) ?u"
  have 6: "trim ?u \<noteq> []" by (simp add: eval_strings)
  from verdict_and_confidence_extraction[OF 1 2 refl 3 _ _ contentOf_reply 6] obtain r' sent' where
    r': "factCheckTool ?w' exampleFactCheckContext = (Inr r', sent')"
    and v': "(\<forall>i v. \<not> verdictAt ?u i v) \<longrightarrow> fr_verdict r' = js ''unverifiable''"
    and c': "(\<forall>i n. \<not> confidenceAt ?u i n) \<longrightarrow> fr_confidence r' = 0.5"
    by (auto simp: res_ok_def)
  have l: "length ?u = 11" by (simp add: js_simps)
  have "\<forall>j<12. verdict_at (drop j ?u) = None" unfolding all_less_list by code_simp
  then have "\<forall>i v. \<not> verdictAt ?u i v"
    unfolding verdictAt_code l by (auto simp: le_less_Suc_eq)
  with v' have "fr_verdict r' = js ''unverifiable''" by blast
  moreover have "\<forall>j<12. confidence_at (drop j ?u) = None" unfolding all_less_list by code_simp
  then have "\<forall>i n. \<not> confidenceAt ?u i n"
    unfolding confidenceAt_code l by (auto simp: le_less_Suc_eq)
  with c' have "fr_confidence r' = 0.5" by blast
  ultimately have "\<exists>r sent. factCheckTool ?w' exampleFactCheckContext = (Inr r, sent) \<and>
     fr_verdict r = js ''unverifiable'' \<and> fr_confidence r = 0.5" using r' by blast
  with first show ?thesis by blast
qed

text \<open>
  The claim as stated fails on a text that contains both phrases after an earlier verdict
  and with a longer number: the verdict is that of the first match, and the number is read
  to its end.
\<close>

theorem earlier_verdict_longer_number_counterexample:
  "sublist (js ''Verdict: mostly_false'')
     (js ''Verdict: false'' @ [10] @ js ''Revised Verdict: mostly_false'' @ [10] @
      js ''Confidence: 72.5'') \<and>
   sublist (js ''Confidence: 72'')
     (js ''Verdict: false'' @ [10] @ js ''Revised Verdict: mostly_false'' @ [10] @
      js ''Confidence: 72.5'') \<and>
   map_sum id fr_verdict
     (fst (factCheckTool
        (exampleWorld (Some (js ''key''))
           (js ''Verdict: false'' @ [10] @ js ''Revised Verdict: mostly_false'' @ [10] @
            js ''Confidence: 72.5''))
        exampleFactCheckContext)) = Inr (js ''false'') \<and>
   map_sum id fr_confidence
     (fst (factCheckTool
        (exampleWorld (Some (js ''key''))
           (js ''Verdict: false'' @ [10] @ js ''Revised Verdict: mostly_false'' @ [10] @
            js ''Confidence: 72.5''))
        exampleFactCheckContext)) = Inr 0.725 \<and>
   js ''false'' \<noteq> js ''mostly_false'' \<and> (0.725 :: real) \<noteq> 0.72"
proof -
  let ?t = "js ''Verdict: false'' @ [10] @ js ''Revised Verdict: mostly_false'' @ [10] @
      js ''Confidence: 72.5''"
  have v: "extractVerdict ?t = js ''false''"
    by (simp add: extractVerdict_def verdict_at_def verdictWords_def eval_regex)
  have c: "extractConfidence ?t = 0.725"
    by (simp add: extractConfidence_def confidence_at_def parseFloat_def digitsValue_def
        eval_regex)
  have s1: "sublist (js ''Verdict: mostly_false'') ?t"
    unfolding str_includes_sublist[symmetric] by (simp add: js_simps)
  have s2: "sublist (js ''Confidence: 72'') ?t"
    unfolding str_includes_sublist[symmetric] by (simp add: js_simps)
  have t: "factCheckTool (exampleWorld (Some (js ''key'')) ?t) exampleFactCheckContext =
     (Inr \<lparr>fr_claim = js ''prices fell'',
             fr_verdict = extractVerdict ?t,
             fr_confidence = extractConfidence ?t,
             fr_evidence = take 5 (extractEvidence ?t),
             fr_explanation = ?t,
             fr_relatedClaims = take 3 (extractRelated ?t),
             fr_checkDate = exampleNow\<rparr>,
      [factCheckRequest (exampleWorld (Some (js ''key'')) ?t) (js ''prices fell'') None []])"
    by (simp add: factCheckTool_def factCheckTool_try_def keyMissing_def Let_def
        exampleFactCheckContext_def completion_def res_ok_def messageContent_def
        exampleWorld_def replyWith_def constantClock_def eval_strings)
  show ?thesis
    unfolding t using v c s1 s2 by (simp add: js_simps)
qed

subsection \<open>The evidence\<close>

text \<open>
  The matches of the source pattern in order: the leftmost match, then the matches of
  what is left after it.
\<close>

definition firstSourceMatch :: "jsstring \<Rightarrow> nat \<Rightarrow> jsstring \<times> jsstring \<Rightarrow> jsstring \<Rightarrow> bool" where
  "firstSourceMatch t i g rest \<longleftrightarrow>
     i \<le> length t \<and> source_at (drop i t) = Some (g, rest) \<and>
     (\<forall>j<i. source_at (drop j t) = None)"

inductive matchesInOrder :: "jsstring \<Rightarrow> (jsstring \<times> jsstring) list \<Rightarrow> bool" where
  no_match: "(\<And>i. i \<le> length t \<Longrightarrow> source_at (drop i t) = None) \<Longrightarrow> matchesInOrder t []"
| next_match: "firstSourceMatch t i g rest \<Longrightarrow> matchesInOrder rest gs \<Longrightarrow>
               matchesInOrder t (g # gs)"

text \<open>A stretch of text that reads \<open>source: X - Y\<close>, as the pattern delimits it.\<close>

definition readsSource :: "jsstring \<Rightarrow> jsstring \<Rightarrow> jsstring \<Rightarrow> bool" where
  "readsSource m x y \<longleftrightarrow>
     (\<exists>k ws1 ws2 ws3. m = k @ ws1 @ x @ ws2 @ [45] @ ws3 @ y \<and>
        toLowerCase k = js ''source:'' \<and>
        (\<forall>c\<in>set (ws1 @ ws2 @ ws3). isWhiteSpace c) \<and>
        x \<noteq> [] \<and> y \<noteq> [] \<and> (\<forall>c\<in>set (x @ y). c \<noteq> 10))"

lemma lit_dash: "lit (js ''-'') s = Some r \<Longrightarrow> s = 45 # r"
proof -
  assume a: "lit (js ''-'') s = Some r"
  have u: "toLowerUnit c = 45 \<longleftrightarrow> c = 45" for c by (auto simp: toLowerUnit_def)
  have p: "toLowerUnit 45 = 45" by (simp add: toLowerUnit_def)
  have k: "js ''-'' = [45]" by (simp add: js_simps)
  show ?thesis
  proof (cases s)
    case Nil
    with a show ?thesis by (simp add: lit_def k toLowerCase_def)
  next
    case (Cons c cs)
    with a show ?thesis by (simp add: lit_def k toLowerCase_def p u split: if_splits)
  qed
qed

lemma source_key_lower: "toLowerCase (js ''source:'') = js ''source:''"
  by (simp add: js_simps toLowerCase_def toLowerUnit_def)

lemma source_at_reads:
  assumes "source_at s = Some ((x, y), rest)"
  shows "\<exists>m. s = m @ rest \<and> readsSource m x y"
proof -
  from source_at_SomeD[OF assms] obtain r ws1 r1 r2 ws2 r3 r4 ws3 r5 where
    a: "lit (js ''source:'') s = Some r" "(ws1, r1) \<in> set (greedy 0 isWhiteSpace r)"
      "(x, r2) \<in> set (greedy 1 notNewline r1)" "(ws2, r3) \<in> set (greedy 0 isWhiteSpace r2)"
      "lit (js ''-'') r3 = Some r4" "(ws3, r5) \<in> set (greedy 0 isWhiteSpace r4)"
      "(y, rest) \<in> set (greedy 1 notNewline r5)" by blast
  from a(1) obtain k where k: "s = k @ r" "toLowerCase k = js ''source:''"
    by (auto simp: lit_iff source_key_lower)
  note g = greedy_setD[OF a(2)] greedy_setD[OF a(3)] greedy_setD[OF a(4)] greedy_setD[OF a(6)]
    greedy_setD[OF a(7)]
  have "s = (k @ ws1 @ x @ ws2 @ [45] @ ws3 @ y) @ rest"
    using k(1) g lit_dash[OF a(5)] by simp
  moreover have "readsSource (k @ ws1 @ x @ ws2 @ [45] @ ws3 @ y) x y"
  proof -
    have "x \<noteq> []" "y \<noteq> []" using g by auto
    moreover have "\<forall>c\<in>set (ws1 @ ws2 @ ws3). isWhiteSpace c" using g by auto
    moreover have "\<forall>c\<in>set (x @ y). c \<noteq> 10" using g by (auto simp: notNewline_def)
    ultimately show ?thesis unfolding readsSource_def using k(2) by blast
  qed
  ultimately show ?thesis by blast
qed

lemma matchesInOrder_sourceMatches: "matchesInOrder t (sourceMatches t)"
proof (induction t rule: sourceMatches.induct)
  case (1 s)
  show ?case
  proof (cases "re_search source_at s")
    case None
    then have "sourceMatches s = []" by (simp add: sourceMatches.simps)
    moreover from None have "\<And>i. i \<le> length s \<Longrightarrow> source_at (drop i s) = None"
      by (simp add: re_search_None_iff)
    ultimately show ?thesis by (simp add: no_match)
  next
    case (Some a)
    obtain g rest where a: "a = (g, rest)" by (cases a)
    with Some have m: "sourceMatches s = g # sourceMatches rest"
      by (simp add: sourceMatches.simps)
    from Some a obtain i where "firstSourceMatch s i g rest"
      unfolding firstSourceMatch_def re_search_Some_iff by blast
    moreover have "matchesInOrder rest (sourceMatches rest)"
      using "1.IH"[OF Some[unfolded a] refl] .
    ultimately show ?thesis unfolding m by (rule next_match)
  qed
qed

lemma firstSourceMatch_unique:
  assumes "firstSourceMatch t i g rest" and "firstSourceMatch t i' g' rest'"
  shows "g = g' \<and> rest = rest'"
proof -
  have "i = i'"
  proof (rule ccontr)
    assume "i \<noteq> i'"
    then consider "i < i'" | "i' < i" by linarith
    then show False using assms by cases (auto simp: firstSourceMatch_def)
  qed
  with assms show ?thesis by (auto simp: firstSourceMatch_def)
qed

lemma matchesInOrder_unique: "matchesInOrder t gs \<Longrightarrow> gs = sourceMatches t"
proof (induction rule: matchesInOrder.induct)
  case (no_match t)
  then have "re_search source_at t = None" by (simp add: re_search_None_iff)
  then show ?case by (simp add: sourceMatches.simps)
next
  case (next_match t i g rest gs)
  then have "re_search source_at t = Some (g, rest)"
    unfolding firstSourceMatch_def re_search_Some_iff by blast
  with next_match.IH show ?case by (simp add: sourceMatches.simps)
qed

lemma sourceMatches_read:
  "(x, y) \<in> set (sourceMatches t) \<Longrightarrow> \<exists>m. sublist m t \<and> readsSource m x y"
proof (induction t rule: sourceMatches.induct)
  case (1 s)
  show ?case
  proof (cases "re_search source_at s")
    case None
    with "1.prems" show ?thesis by (simp add: sourceMatches.simps)
  next
    case (Some a)
    obtain g rest where a: "a = (g, rest)" by (cases a)
    with Some have m: "sourceMatches s = g # sourceMatches rest"
      by (simp add: sourceMatches.simps)
    from Some a obtain i where i: "source_at (drop i s) = Some (g, rest)"
      by (auto dest: re_search_SomeD)
    obtain x' y' where g: "g = (x', y')" by (cases g)
    from source_at_reads[OF i[unfolded g]] obtain m' where
      m': "drop i s = m' @ rest" "readsSource m' x' y'" by blast
    have s: "s = take i s @ m' @ rest" using m'(1) by (metis append_take_drop_id)
    from "1.prems" m consider "(x, y) = g" | "(x, y) \<in> set (sourceMatches rest)" by auto
    then show ?thesis
    proof cases
      case 1
      with g m'(2) s show ?thesis by (metis Pair_inject sublist_appendI)
    next
      case 2
      from "1.IH"[OF Some[unfolded a] refl 2] obtain m where
        "sublist m rest" "readsSource m x y" by blast
      moreover have "sublist rest s" using s by (metis append.assoc sublist_append_leftI)
      ultimately show ?thesis using sublist_trans by blast
    qed
  qed
qed

definition exampleSourcesText :: jsstring where
  "exampleSourcesText =
     js ''Source: Reuters - confirms the claim'' @ [10] @ js ''Source: AP - denies involvement''"

lemma example_matches:
  "sourceMatches exampleSourcesText =
     [(js ''Reuters '', js ''confirms the claim''), (js ''AP '', js ''denies involvement'')]"
proof -
  have 1: "re_search source_at exampleSourcesText =
             Some ((js ''Reuters '', js ''confirms the claim''),
                   [10] @ js ''Source: AP - denies involvement'')"
    by (simp add: exampleSourcesText_def source_at_def eval_regex)
  have 2: "re_search source_at ([10] @ js ''Source: AP - denies involvement'') =
             Some ((js ''AP '', js ''denies involvement''), [])"
    by (simp add: source_at_def eval_regex)
  have 3: "re_search source_at [] = None"
    by (simp add: source_at_def eval_regex)
  have "sourceMatches [] = []"
    by (subst sourceMatches.simps) (simp only: 3 option.case)
  then have "sourceMatches ([10] @ js ''Source: AP - denies involvement'') =
             [(js ''AP '', js ''denies involvement'')]"
    by (subst sourceMatches.simps) (simp only: 2 option.case prod.case)
  then show ?thesis
    by (subst sourceMatches.simps) (simp only: 1 option.case prod.case)
qed

lemma example_evidence:
  "map makeEvidence (sourceMatches exampleSourcesText) =
     [\<lparr>ev_source = js ''Reuters'', ev_supporting = True, ev_quote = js ''confirms the claim'',
       ev_credibility = 0.8\<rparr>,
      \<lparr>ev_source = js ''AP'', ev_supporting = False, ev_quote = js ''denies involvement'',
       ev_credibility = 0.8\<rparr>]"
  unfolding example_matches
  by (simp add: makeEvidence_def toLowerCase_def toLowerUnit_def eval_strings)

text \<open>
  Claim C5. On every successful fact-check response the evidence holds one item for each
  match of the source pattern, in the order of the matches in the text and cut after five
  items. Every match reads \<open>source: X - Y\<close> in the text; its item has the trimmed \<open>X\<close> as
  source and the trimmed \<open>Y\<close> as quote, is supporting exactly when \<open>Y\<close> mentions support or
  confirm, and has the credibility 0.8. In particular the text of the two lines
  \<open>Source: Reuters - confirms the claim\<close> and \<open>Source: AP - denies involvement\<close> gives two
  items, the first supporting, the second not, both of credibility 0.8.
\<close>

theorem evidence_extraction:
  assumes "trim (fc_claim c) \<noteq> []" and "\<not> keyMissing w"
    and "req = factCheckRequest w (fc_claim c) (fc_context c)
                 (case fc_sources c of None \<Rightarrow> [] | Some l \<Rightarrow> l)"
    and "fetch w req = Inr res" and "res_ok res" and "res_json res = Inr data"
    and "contentOf data = Some (JStr analysisText)" and "trim analysisText \<noteq> []"
  shows "\<exists>r gs. factCheckTool w c = (Inr r, [req]) \<and>
     matchesInOrder analysisText gs \<and>
     (\<forall>g\<in>set gs. \<exists>m. sublist m analysisText \<and> readsSource m (fst g) (snd g)) \<and>
     fr_evidence r = take 5 (map makeEvidence gs) \<and>
     length (fr_evidence r) = min 5 (length gs) \<and>
     (\<forall>i<length (fr_evidence r).
        ev_source (fr_evidence r ! i) = trim (fst (gs ! i)) \<and>
        ev_quote (fr_evidence r ! i) = trim (snd (gs ! i)) \<and>
        (ev_supporting (fr_evidence r ! i) \<longleftrightarrow>
           mentions (snd (gs ! i)) (js ''support'') \<or> mentions (snd (gs ! i)) (js ''confirm'')) \<and>
        ev_credibility (fr_evidence r ! i) = 0.8) \<and>
     (analysisText = js ''Source: Reuters - confirms the claim'' @ [10] @
                     js ''Source: AP - denies involvement'' \<longrightarrow>
        length (fr_evidence r) = 2 \<and>
        ev_supporting (fr_evidence r ! 0) \<and> \<not> ev_supporting (fr_evidence r ! 1) \<and>
        ev_credibility (fr_evidence r ! 0) = 0.8 \<and> ev_credibility (fr_evidence r ! 1) = 0.8)"
proof -
  let ?gs = "sourceMatches analysisText"
  let ?r = "\<lparr>fr_claim = fc_claim c,
             fr_verdict = extractVerdict analysisText,
             fr_confidence = extractConfidence analysisText,
             fr_evidence = take 5 (extractEvidence analysisText),
             fr_explanation = analysisText,
             fr_relatedClaims = take 3 (extractRelated analysisText),
             fr_checkDate = toISOString w (Days 0)\<rparr>"
  have t: "fc_claim c \<noteq> []" using assms(1) by auto
  have tool: "factCheckTool w c = (Inr ?r, [req])"
    using assms(1,2) t completion_content[OF assms(4,5,6,7,8)]
    by (simp add: factCheckTool_def factCheckTool_try_def Let_def assms(3)[symmetric])
  have e: "fr_evidence ?r = take 5 (map makeEvidence ?gs)"
    by (simp add: extractEvidence_def)
  have rd: "\<forall>g\<in>set ?gs. \<exists>m. sublist m analysisText \<and> readsSource m (fst g) (snd g)"
    using sourceMatches_read[of _ _ analysisText] by auto
  have len: "length (fr_evidence ?r) = min 5 (length ?gs)"
    unfolding e by simp
  have item: "ev_source (fr_evidence ?r ! i) = trim (fst (?gs ! i)) \<and>
        ev_quote (fr_evidence ?r ! i) = trim (snd (?gs ! i)) \<and>
        (ev_supporting (fr_evidence ?r ! i) \<longleftrightarrow>
           mentions (snd (?gs ! i)) (js ''support'') \<or> mentions (snd (?gs ! i)) (js ''confirm'')) \<and>
        ev_credibility (fr_evidence ?r ! i) = 0.8"
    if "i < length (fr_evidence ?r)" for i
  proof -
    from that have i: "i < 5" "i < length ?gs" unfolding len by simp_all
    then have "fr_evidence ?r ! i = makeEvidence (?gs ! i)" unfolding e by simp
    then show ?thesis by (simp add: makeEvidence_def includes_lower_mentions)
  qed
  have ex: "length (fr_evidence ?r) = 2 \<and>
        ev_supporting (fr_evidence ?r ! 0) \<and> \<not> ev_supporting (fr_evidence ?r ! 1) \<and>
        ev_credibility (fr_evidence ?r ! 0) = 0.8 \<and> ev_credibility (fr_evidence ?r ! 1) = 0.8"
    if "analysisText = js ''Source: Reuters - confirms the claim'' @ [10] @
                     js ''Source: AP - denies involvement''"
  proof -
    have "analysisText = exampleSourcesText" using that by (simp add: exampleSourcesText_def)
    with e have "fr_evidence ?r = take 5 (map makeEvidence (sourceMatches exampleSourcesText))"
      by simp
    then show ?thesis unfolding example_evidence by simp
  qed
  show ?thesis
    apply (intro exI[of _ ?r] exI[of _ ?gs] conjI)
    subgoal by (rule tool)
    subgoal by (rule matchesInOrder_sourceMatches)
    subgoal by (rule rd)
    subgoal by (rule e)
    subgoal by (rule len)
    subgoal using item by blast
    subgoal using ex by blast
    done
qed

text \<open>Six matches, of which the evidence keeps the first five.\<close>

definition sixSourcesText :: jsstring where
  "sixSourcesText =
     js ''source: A - a'' @ [10] @ js ''source: B - b'' @ [10] @ js ''source: C - c'' @ [10] @ js ''source: D - d'' @ [10] @ js ''source: E - e'' @ [10] @ js ''source: F - f''"

lemma six_sources_matches:
  "sourceMatches sixSourcesText =
     [(js ''A '', js ''a''), (js ''B '', js ''b''), (js ''C '', js ''c''), (js ''D '', js ''d''),
      (js ''E '', js ''e''), (js ''F '', js ''f'')]"
proof -
  have s0: "re_search source_at (js ''source: A - a'' @ [10] @ js ''source: B - b'' @ [10] @ js ''source: C - c'' @ [10] @ js ''source: D - d'' @ [10] @ js ''source: E - e'' @ [10] @ js ''source: F - f'') =
      Some ((js ''A '', js ''a''), [10] @ js ''source: B - b'' @ [10] @ js ''source: C - c'' @ [10] @ js ''source: D - d'' @ [10] @ js ''source: E - e'' @ [10] @ js ''source: F - f'')"
    by (simp add: source_at_def eval_regex)
  have s1: "re_search source_at ([10] @ js ''source: B - b'' @ [10] @ js ''source: C - c'' @ [10] @ js ''source: D - d'' @ [10] @ js ''source: E - e'' @ [10] @ js ''source: F - f'') =
      Some ((js ''B '', js ''b''), [10] @ js ''source: C - c'' @ [10] @ js ''source: D - d'' @ [10] @ js ''source: E - e'' @ [10] @ js ''source: F - f'')"
    by (simp add: source_at_def eval_regex)
  have s2: "re_search source_at ([10] @ js ''source: C - c'' @ [10] @ js ''source: D - d'' @ [10] @ js ''source: E - e'' @ [10] @ js ''source: F - f'') =
      Some ((js ''C '', js ''c''), [10] @ js ''source: D - d'' @ [10] @ js ''source: E - e'' @ [10] @ js ''source: F - f'')"
    by (simp add: source_at_def eval_regex)
  have s3: "re_search source_at ([10] @ js ''source: D - d'' @ [10] @ js ''source: E - e'' @ [10] @ js ''source: F - f'') =
      Some ((js ''D '', js ''d''), [10] @ js ''source: E - e'' @ [10] @ js ''source: F - f'')"
    by (simp add: source_at_def eval_regex)
  have s4: "re_search source_at ([10] @ js ''source: E - e'' @ [10] @ js ''source: F - f'') =
      Some ((js ''E '', js ''e''), [10] @ js ''source: F - f'')"
    by (simp add: source_at_def eval_regex)
  have s5: "re_search source_at ([10] @ js ''source: F - f'') =
      Some ((js ''F '', js ''f''), [])"
    by (simp add: source_at_def eval_regex)
  have s6: "re_search source_at [] = None"
    by (simp add: source_at_def eval_regex)
  have m6: "sourceMatches [] = []"
    by (subst sourceMatches.simps) (simp only: s6 option.case)
  have m5: "sourceMatches ([10] @ js ''source: F - f'') =
      [(js ''F '', js ''f'')]"
    by (subst sourceMatches.simps) (simp only: s5 m6 option.case prod.case)
  have m4: "sourceMatches ([10] @ js ''source: E - e'' @ [10] @ js ''source: F - f'') =
      [(js ''E '', js ''e''), (js ''F '', js ''f'')]"
    by (subst sourceMatches.simps) (simp only: s4 m5 option.case prod.case)
  have m3: "sourceMatches ([10] @ js ''source: D - d'' @ [10] @ js ''source: E - e'' @ [10] @ js ''source: F - f'') =
      [(js ''D '', js ''d''), (js ''E '', js ''e''), (js ''F '', js ''f'')]"
    by (subst sourceMatches.simps) (simp only: s3 m4 option.case prod.case)
  have m2: "sourceMatches ([10] @ js ''source: C - c'' @ [10] @ js ''source: D - d'' @ [10] @ js ''source: E - e'' @ [10] @ js ''source: F - f'') =
      [(js ''C '', js ''c''), (js ''D '', js ''d''), (js ''E '', js ''e''), (js ''F '', js ''f'')]"
    by (subst sourceMatches.simps) (simp only: s2 m3 option.case prod.case)
  have m1: "sourceMatches ([10] @ js ''source: B - b'' @ [10] @ js ''source: C - c'' @ [10] @ js ''source: D - d'' @ [10] @ js ''source: E - e'' @ [10] @ js ''source: F - f'') =
      [(js ''B '', js ''b''), (js ''C '', js ''c''), (js ''D '', js ''d''), (js ''E '', js ''e''), (js ''F '', js ''f'')]"
    by (subst sourceMatches.simps) (simp only: s1 m2 option.case prod.case)
  have m0: "sourceMatches (js ''source: A - a'' @ [10] @ js ''source: B - b'' @ [10] @ js ''source: C - c'' @ [10] @ js ''source: D - d'' @ [10] @ js ''source: E - e'' @ [10] @ js ''source: F - f'') =
      [(js ''A '', js ''a''), (js ''B '', js ''b''), (js ''C '', js ''c''), (js ''D '', js ''d''), (js ''E '', js ''e''), (js ''F '', js ''f'')]"
    by (subst sourceMatches.simps) (simp only: s0 m1 option.case prod.case)
  show ?thesis unfolding sixSourcesText_def by (rule m0)
qed

lemma six_sources_capped:
  "length (take 5 (extractEvidence sixSourcesText)) = 5 \<and>
   map ev_source (take 5 (extractEvidence sixSourcesText)) =
     [js ''A'', js ''B'', js ''C'', js ''D'', js ''E'']"
  unfolding extractEvidence_def six_sources_matches
  by (simp add: makeEvidence_def eval_strings)

theorem evidence_extraction_witness:
  "(\<exists>r sent. factCheckTool (exampleWorld (Some (js ''key'')) exampleSourcesText)
       exampleFactCheckContext = (Inr r, sent) \<and>
     length (fr_evidence r) = 2 \<and>
     ev_supporting (fr_evidence r ! 0) \<and> \<not> ev_supporting (fr_evidence r ! 1) \<and>
     ev_credibility (fr_evidence r ! 0) = 0.8 \<and> ev_credibility (fr_evidence r ! 1) = 0.8) \<and>
   (\<exists>r sent. factCheckTool (exampleWorld (Some (js ''key'')) sixSourcesText)
       exampleFactCheckContext = (Inr r, sent) \<and>
     map ev_source (fr_evidence r) = [js ''A'', js ''B'', js ''C'', js ''D'', js ''E''])"
proof -
  have 1: "trim (fc_claim exampleFactCheckContext) \<noteq> []"
    by (simp add: exampleFactCheckContext_def eval_strings)
  have 2: "\<not> keyMissing (exampleWorld (Some (js ''key'')) t)" for t
    by (simp add: keyMissing_def exampleWorld_def js_simps)
  have 3: "fetch (exampleWorld (Some (js ''key'')) t) req =
             Inr \<lparr>res_status = 200, res_text = Inr [],
                  res_json = Inr (JObj [(js ''choices'',
                    JArr [JObj [(js ''message'', JObj [(js ''content'', JStr t)])]])])\<rparr>" for req t
    by (simp add: exampleWorld_def replyWith_def)
  have 5: "trim exampleSourcesText \<noteq> []" by (simp add: exampleSourcesText_def eval_strings)
  from evidence_extraction[OF 1 2 refl 3 _ _ contentOf_reply 5]
  have first: "\<exists>r sent. factCheckTool (exampleWorld (Some (js ''key'')) exampleSourcesText)
       exampleFactCheckContext = (Inr r, sent) \<and>
     length (fr_evidence r) = 2 \<and>
     ev_supporting (fr_evidence r ! 0) \<and> \<not> ev_supporting (fr_evidence r ! 1) \<and>
     ev_credibility (fr_evidence r ! 0) = 0.8 \<and> ev_credibility (fr_evidence r ! 1) = 0.8"
    by (auto simp: res_ok_def exampleSourcesText_def)
  have 6: "trim sixSourcesText \<noteq> []" by (simp add: sixSourcesText_def eval_strings)
  from evidence_extraction[OF 1 2 refl 3 _ _ contentOf_reply 6] obtain r sent gs where
    r: "factCheckTool (exampleWorld (Some (js ''key'')) sixSourcesText)
          exampleFactCheckContext = (Inr r, sent)"
    and g: "matchesInOrder sixSourcesText gs" "fr_evidence r = take 5 (map makeEvidence gs)"
    by (auto simp: res_ok_def)
  from matchesInOrder_unique[OF g(1)] g(2)
  have "fr_evidence r = take 5 (extractEvidence sixSourcesText)"
    by (simp add: extractEvidence_def)
  with six_sources_capped r
  have "\<exists>r sent. factCheckTool (exampleWorld (Some (js ''key'')) sixSourcesText)
       exampleFactCheckContext = (Inr r, sent) \<and>
     map ev_source (fr_evidence r) = [js ''A'', js ''B'', js ''C'', js ''D'', js ''E'']"
    by auto
  with first show ?thesis by blast
qed

end
